theory Spec2Isabelle
  imports
    Main
    "HOL-Library.AList"
    "HOL-Library.Char_ord"
    "HOL-Library.List_Lexorder"
    "HOL-Library.Multiset"
begin

section \<open>Values and exceptions\<close>

text \<open>
  The pipeline moves Python objects that come out of \<^verbatim>\<open>json.loads\<close>: dictionaries, lists,
  strings, numbers, booleans and \<^verbatim>\<open>None\<close>.  A Python \<^verbatim>\<open>str\<close> is modelled as a
  \<^typ>\<open>string\<close> whose characters are its code points; the model therefore covers texts
  with code points below 256.  A dictionary is an association list in insertion order,
  read with \<^const>\<open>map_of\<close> and written with \<^const>\<open>AList.update\<close>, so a key keeps the place of
  its first insertion and the value of its last one.  A float is kept as the literal that
  denotes it; its numeric value is not modelled.
\<close>

datatype json =
    JNull
  | JBool bool
  | JInt int
  | JFloat string
  | JStr string
  | JArr "json list"
  | JObj "(string \<times> json) list"

type_synonym pydict = "(string \<times> json) list"

text \<open>
  Exceptions are values, each with the text that \<^verbatim>\<open>str(e)\<close> gives.  The messages of
  the run time are shortened: a \<open>TypeError\<close> does not name the types, and a
  \<open>JSONDecodeError\<close> carries its message without the position that Python appends.  \<open>OtherError\<close>
  stands for any exception raised by a collaborator outside this repository (the PDF
  loader, the embedding model, the generative service).  \<open>Unmodelled\<close> is not a Python
  exception: it marks the inputs on which the Python run time leaves this model (a
  \<^verbatim>\<open>\uXXXX\<close> escape above U+00FF, a sort over float or list keys); no handler catches it.
\<close>

datatype py_error =
    ValueError string
  | TypeError string
  | AttributeError string
  | IndexError string
  | JSONDecodeError string
  | OtherError string
  | Unmodelled string

fun error_text :: "py_error \<Rightarrow> string" where
  "error_text (ValueError m) = m"
| "error_text (TypeError m) = m"
| "error_text (AttributeError m) = m"
| "error_text (IndexError m) = m"
| "error_text (JSONDecodeError m) = m"
| "error_text (OtherError m) = m"
| "error_text (Unmodelled m) = m"

fun is_exception :: "py_error \<Rightarrow> bool" where
  "is_exception (Unmodelled m) = False"
| "is_exception e = True"

text \<open>\<^verbatim>\<open>try: body  except Exception as e: handler(e)\<close>\<close>

definition try_except :: "py_error + 'a \<Rightarrow> (py_error \<Rightarrow> py_error + 'a) \<Rightarrow> py_error + 'a" where
  "try_except body handler =
     (case body of
        Inr x \<Rightarrow> Inr x
      | Inl e \<Rightarrow> if is_exception e then handler e else Inl e)"

text \<open>
  A list comprehension or \<^verbatim>\<open>asyncio.gather\<close> over computations that may raise: the
  results in order, or the first exception in list order.  (In \<^verbatim>\<open>rank_candidates\<close> every
  exception that leaves \<^verbatim>\<open>evaluate_candidate\<close> is raised before the coroutine first
  suspends, so the first task to fail is the first failing one in list order.)
\<close>

fun gather :: "(py_error + 'a) list \<Rightarrow> py_error + 'a list" where
  "gather [] = Inr []"
| "gather (r # rs) =
     (case r of
        Inl e \<Rightarrow> Inl e
      | Inr x \<Rightarrow> (case gather rs of Inl e \<Rightarrow> Inl e | Inr xs \<Rightarrow> Inr (x # xs)))"

subsection \<open>Operations of Python on these values\<close>

definition has_key :: "pydict \<Rightarrow> string \<Rightarrow> bool" where
  "has_key d k = (map_of d k \<noteq> None)"

text \<open>\<^verbatim>\<open>d.get(k, default)\<close>\<close>

definition dict_get :: "pydict \<Rightarrow> string \<Rightarrow> json \<Rightarrow> json" where
  "dict_get d k dflt = (case map_of d k of None \<Rightarrow> dflt | Some v \<Rightarrow> v)"

text \<open>\<^verbatim>\<open>{**a, **b}\<close>: the items of \<open>b\<close> are stored into a copy of \<open>a\<close>, in order.\<close>

definition dict_merge :: "pydict \<Rightarrow> pydict \<Rightarrow> pydict" where
  "dict_merge a b = fold (\<lambda>(k, v). AList.update k v) b a"

text \<open>\<^verbatim>\<open>len(v)\<close>\<close>

fun py_len :: "json \<Rightarrow> py_error + nat" where
  "py_len (JStr s) = Inr (length s)"
| "py_len (JArr xs) = Inr (length xs)"
| "py_len (JObj d) = Inr (length (remdups (map fst d)))"
| "py_len v = Inl (TypeError ''object has no len()'')"

fun join_strs :: "string \<Rightarrow> string list \<Rightarrow> string" where
  "join_strs sep [] = []"
| "join_strs sep [x] = x"
| "join_strs sep (x # y # ys) = x @ sep @ join_strs sep (y # ys)"

fun str_items :: "json list \<Rightarrow> string list option" where
  "str_items [] = Some []"
| "str_items (JStr s # vs) = map_option ((#) s) (str_items vs)"
| "str_items (v # vs) = None"

text \<open>\<^verbatim>\<open>', '.join(v)\<close>: \<open>v\<close> must be iterable and every item a \<^verbatim>\<open>str\<close>.\<close>

fun py_join :: "json \<Rightarrow> py_error + string" where
  "py_join (JArr xs) =
     (case str_items xs of
        None \<Rightarrow> Inl (TypeError ''sequence item: expected str instance'')
      | Some ss \<Rightarrow> Inr (join_strs '', '' ss))"
| "py_join (JStr s) = Inr (join_strs '', '' (map (\<lambda>c. [c]) s))"
| "py_join (JObj d) = Inr (join_strs '', '' (remdups (map fst d)))"
| "py_join v = Inl (TypeError ''can only join an iterable'')"

text \<open>\<^verbatim>\<open>"error" in v\<close>\<close>

fun is_infix :: "string \<Rightarrow> string \<Rightarrow> bool" where
  "is_infix p [] = (p = [])"
| "is_infix p (c # s) = (take (length p) (c # s) = p \<or> is_infix p s)"

fun py_contains :: "string \<Rightarrow> json \<Rightarrow> py_error + bool" where
  "py_contains k (JObj d) = Inr (has_key d k)"
| "py_contains k (JArr xs) = Inr (JStr k \<in> set xs)"
| "py_contains k (JStr s) = Inr (is_infix k s)"
| "py_contains k v = Inl (TypeError ''argument is not iterable'')"

section \<open>The regular expressions\<close>

text \<open>
  \<^verbatim>\<open>\s\<close> in a \<^verbatim>\<open>str\<close> pattern: the characters for which \<^verbatim>\<open>str.isspace\<close> holds, here those
  below 256.
\<close>

definition is_space :: "char \<Rightarrow> bool" where
  "is_space c =
     (let n = (of_char c :: nat)
      in (9 \<le> n \<and> n \<le> 13) \<or> (28 \<le> n \<and> n \<le> 32) \<or> n = 133 \<or> n = 160)"

definition strip_prefix :: "string \<Rightarrow> string \<Rightarrow> string option" where
  "strip_prefix p s = (if take (length p) s = p then Some (drop (length p) s) else None)"

text \<open>
  \<^verbatim>\<open>re.search(r'```json\s*(\{.*?\})\s*```', text, re.DOTALL)\<close>, group 1.  After
  \<^verbatim>\<open>```json\<close> the greedy \<^verbatim>\<open>\s*\<close> takes all the white space (giving some back leaves a white
  space character where \<^verbatim>\<open>{\<close> is wanted); the lazy \<^verbatim>\<open>.*?\<close> then stops at the first \<^verbatim>\<open>}\<close>
  that white space and three backticks follow.  A start position where this fails is
  given up for the next one.
\<close>

fun lazy_close :: "string \<Rightarrow> string option" where
  "lazy_close [] = None"
| "lazy_close (c # t) =
     (if c = CHR ''}'' \<and> strip_prefix ''```'' (dropWhile is_space t) \<noteq> None then Some [c]
      else map_option ((#) c) (lazy_close t))"

definition fenced_at :: "string \<Rightarrow> string option" where
  "fenced_at s =
     (case strip_prefix ''```json'' s of
        None \<Rightarrow> None
      | Some r \<Rightarrow>
          (case dropWhile is_space r of
             [] \<Rightarrow> None
           | b # t \<Rightarrow> if b = CHR ''{'' then map_option ((#) b) (lazy_close t) else None))"

fun search_fenced :: "string \<Rightarrow> string option" where
  "search_fenced [] = None"
| "search_fenced (c # t) =
     (case fenced_at (c # t) of Some g \<Rightarrow> Some g | None \<Rightarrow> search_fenced t)"

text \<open>
  \<^verbatim>\<open>re.search(r'(\{.*\})', text, re.DOTALL)\<close>, group 0: from the first \<^verbatim>\<open>{\<close> to the last
  \<^verbatim>\<open>}\<close> after it.
\<close>

definition search_braces :: "string \<Rightarrow> string option" where
  "search_braces s =
     (case dropWhile (\<lambda>c. c \<noteq> CHR ''{'') s of
        [] \<Rightarrow> None
      | b # t \<Rightarrow>
          if CHR ''}'' \<in> set t
          then Some (b # rev (dropWhile (\<lambda>c. c \<noteq> CHR ''}'') (rev t)))
          else None)"

text \<open>
  \<^verbatim>\<open>re.sub(r',\s*X', 'X', s)\<close> for a closing bracket \<open>X\<close>: left to right, a comma
  followed by white space and \<open>X\<close> is replaced by \<open>X\<close> and the scan goes on after it.
\<close>

function sub_comma :: "char \<Rightarrow> string \<Rightarrow> string" where
  "sub_comma x [] = []"
| "sub_comma x (c # t) =
     (if c = CHR '','' then
        (case dropWhile is_space t of
           [] \<Rightarrow> c # sub_comma x t
         | d # t' \<Rightarrow> if d = x then x # sub_comma x t' else c # sub_comma x t)
      else c # sub_comma x t)"
  by pat_completeness auto
termination
proof (relation "measure (\<lambda>(x, s). length s)", goal_cases)
  case 1
  show ?case by simp
next
  case (2 x c t)
  then show ?case by simp
next
  case (3 x c t d t')
  have "length (dropWhile is_space t) \<le> length t" by (rule length_dropWhile_le)
  with 3 show ?case by simp
next
  case (4 x c t d t')
  then show ?case by simp
next
  case (5 x c t)
  then show ?case by simp
qed

section \<open>The JSON decoder\<close>

text \<open>
  \<^verbatim>\<open>json.loads\<close> of the standard library on a \<^verbatim>\<open>str\<close>, with its default (strict)
  settings, as the accelerated scanner reads it: white space is blank, tab, line feed and
  carriage return; a string ends at the first unescaped quote and holds no raw control
  character; a number is an integer unless a fraction or an exponent follows; \<^verbatim>\<open>NaN\<close>,
  \<^verbatim>\<open>Infinity\<close> and \<^verbatim>\<open>-Infinity\<close> are accepted; a repeated key keeps its last value.  The
  interpreter's recursion limit and its limit on the digits of an integer are not modelled.
  Each scanner returns its value with the text that is left.
\<close>

type_synonym 'a parsed = "py_error + 'a \<times> string"

definition is_json_ws :: "char \<Rightarrow> bool" where
  "is_json_ws c = (c = CHR '' '' \<or> c = CHR 0x09 \<or> c = CHR 0x0A \<or> c = CHR 0x0D)"

definition skip_ws :: "string \<Rightarrow> string" where
  "skip_ws s = dropWhile is_json_ws s"

definition is_digit :: "char \<Rightarrow> bool" where
  "is_digit c = (CHR ''0'' \<le> c \<and> c \<le> CHR ''9'')"

definition hex_val :: "char \<Rightarrow> nat option" where
  "hex_val c =
     (if CHR ''0'' \<le> c \<and> c \<le> CHR ''9'' then Some (of_char c - 48)
      else if CHR ''a'' \<le> c \<and> c \<le> CHR ''f'' then Some (of_char c - 87)
      else if CHR ''A'' \<le> c \<and> c \<le> CHR ''F'' then Some (of_char c - 55)
      else None)"

definition hex4 :: "string \<Rightarrow> nat option" where
  "hex4 s =
     (case map hex_val s of
        [Some a, Some b, Some c, Some d] \<Rightarrow> Some (((a * 16 + b) * 16 + c) * 16 + d)
      | _ \<Rightarrow> None)"

definition unescape :: "char \<Rightarrow> char option" where
  "unescape c =
     (if c = CHR 0x22 then Some (CHR 0x22)
      else if c = CHR 0x5C then Some (CHR 0x5C)
      else if c = CHR ''/'' then Some (CHR ''/'')
      else if c = CHR ''b'' then Some (CHR 0x08)
      else if c = CHR ''f'' then Some (CHR 0x0C)
      else if c = CHR ''n'' then Some (CHR 0x0A)
      else if c = CHR ''r'' then Some (CHR 0x0D)
      else if c = CHR ''t'' then Some (CHR 0x09)
      else None)"

definition cons_parsed :: "char \<Rightarrow> string parsed \<Rightarrow> string parsed" where
  "cons_parsed c p = (case p of Inl e \<Rightarrow> Inl e | Inr (str, r) \<Rightarrow> Inr (c # str, r))"

function scanstring :: "string \<Rightarrow> string parsed" where
  "scanstring [] = Inl (JSONDecodeError ''Unterminated string starting at'')"
| "scanstring (c # cs) =
     (if c = CHR 0x22 then Inr ([], cs)
      else if c = CHR 0x5C then
        (case cs of
           [] \<Rightarrow> Inl (JSONDecodeError ''Unterminated string starting at'')
         | e # r \<Rightarrow>
             if e = CHR ''u'' then
               (case hex4 (take 4 r) of
                  None \<Rightarrow> Inl (JSONDecodeError ''Invalid uXXXX escape'')
                | Some n \<Rightarrow>
                    if n < 256 then cons_parsed (char_of n) (scanstring (drop 4 r))
                    else Inl (Unmodelled ''escape beyond U+00FF''))
             else
               (case unescape e of
                  None \<Rightarrow> Inl (JSONDecodeError ''Invalid escape'')
                | Some ch \<Rightarrow> cons_parsed ch (scanstring r)))
      else if c < CHR 0x20 then Inl (JSONDecodeError ''Invalid control character at'')
      else cons_parsed c (scanstring cs))"
  by pat_completeness auto
termination
  by (relation "measure length") auto

definition digits_val :: "string \<Rightarrow> int" where
  "digits_val ds = foldl (\<lambda>a c. a * 10 + (int (of_char c) - 48)) 0 ds"

definition opt_minus :: "string \<Rightarrow> string \<times> string" where
  "opt_minus s = (case s of [] \<Rightarrow> ([], s) | c # r \<Rightarrow> if c = CHR ''-'' then ([c], r) else ([], s))"

definition int_part :: "string \<Rightarrow> (string \<times> string) option" where
  "int_part s =
     (case s of
        [] \<Rightarrow> None
      | d # r \<Rightarrow>
          if d = CHR ''0'' then Some ([d], r)
          else if is_digit d then Some (d # takeWhile is_digit r, dropWhile is_digit r)
          else None)"

definition frac_part :: "string \<Rightarrow> string \<times> string" where
  "frac_part s =
     (case s of
        p # f # r \<Rightarrow>
          if p = CHR ''.'' \<and> is_digit f
          then (p # f # takeWhile is_digit r, dropWhile is_digit r)
          else ([], s)
      | _ \<Rightarrow> ([], s))"

definition exp_sign :: "string \<Rightarrow> string \<times> string" where
  "exp_sign s =
     (case s of
        [] \<Rightarrow> ([], s)
      | g # t \<Rightarrow> if g = CHR ''-'' \<or> g = CHR ''+'' then ([g], t) else ([], s))"

definition exp_part :: "string \<Rightarrow> string \<times> string" where
  "exp_part s =
     (case s of
        [] \<Rightarrow> ([], s)
      | e # r \<Rightarrow>
          if e = CHR ''e'' \<or> e = CHR ''E'' then
            (case exp_sign r of
               (sg, t) \<Rightarrow>
                 if takeWhile is_digit t = [] then ([], s)
                 else (e # sg @ takeWhile is_digit t, dropWhile is_digit t))
          else ([], s))"

definition match_number :: "string \<Rightarrow> (json \<times> string) option" where
  "match_number s =
     (case opt_minus s of
        (sign, s1) \<Rightarrow>
          (case int_part s1 of
             None \<Rightarrow> None
           | Some (ip, s2) \<Rightarrow>
               (case frac_part s2 of
                  (frac, s3) \<Rightarrow>
                    (case exp_part s3 of
                       (ex, s4) \<Rightarrow>
                         if frac = [] \<and> ex = []
                         then Some (JInt (if sign = [] then digits_val ip else - digits_val ip), s4)
                         else Some (JFloat (sign @ ip @ frac @ ex), s4)))))"

definition scan_word :: "string \<Rightarrow> json \<Rightarrow> string \<Rightarrow> (json \<times> string) option" where
  "scan_word w v s = (case strip_prefix w s of None \<Rightarrow> None | Some r \<Rightarrow> Some (v, r))"

definition or_else :: "'a option \<Rightarrow> 'a option \<Rightarrow> 'a option" where
  "or_else a b = (case a of None \<Rightarrow> b | Some x \<Rightarrow> Some x)"

definition scan_literal :: "string \<Rightarrow> (json \<times> string) option" where
  "scan_literal s =
     or_else (scan_word ''null'' JNull s)
    (or_else (scan_word ''true'' (JBool True) s)
    (or_else (scan_word ''false'' (JBool False) s)
    (or_else (scan_word ''NaN'' (JFloat ''NaN'') s)
    (or_else (scan_word ''Infinity'' (JFloat ''Infinity'') s)
    (or_else (scan_word ''-Infinity'' (JFloat ''-Infinity'') s)
             (match_number s))))))"

function parse_value :: "string \<Rightarrow> json parsed"
  and parse_members :: "string \<Rightarrow> (string \<times> json) list \<Rightarrow> json parsed"
  and parse_elems :: "string \<Rightarrow> json list \<Rightarrow> json parsed"
where
  "parse_value s =
     (case s of
        [] \<Rightarrow> Inl (JSONDecodeError ''Expecting value'')
      | c # r \<Rightarrow>
          if c = CHR 0x22 then
            (case scanstring r of Inl e \<Rightarrow> Inl e | Inr (str, r') \<Rightarrow> Inr (JStr str, r'))
          else if c = CHR ''{'' then
            (case skip_ws r of
               [] \<Rightarrow> parse_members [] []
             | d # r' \<Rightarrow> if d = CHR ''}'' then Inr (JObj [], r') else parse_members (d # r') [])
          else if c = CHR ''['' then
            (case skip_ws r of
               [] \<Rightarrow> parse_elems [] []
             | d # r' \<Rightarrow> if d = CHR '']'' then Inr (JArr [], r') else parse_elems (d # r') [])
          else
            (case scan_literal s of
               None \<Rightarrow> Inl (JSONDecodeError ''Expecting value'')
             | Some vr \<Rightarrow> Inr vr))"
| "parse_members s acc =
     (case s of
        [] \<Rightarrow> Inl (JSONDecodeError ''Expecting property name enclosed in double quotes'')
      | q # r \<Rightarrow>
          if q \<noteq> CHR 0x22
          then Inl (JSONDecodeError ''Expecting property name enclosed in double quotes'')
          else
            (case scanstring r of
               Inl e \<Rightarrow> Inl e
             | Inr (key, r1) \<Rightarrow>
                 (case skip_ws r1 of
                    [] \<Rightarrow> Inl (JSONDecodeError ''Expecting : delimiter'')
                  | col # r2 \<Rightarrow>
                      if col \<noteq> CHR '':'' then Inl (JSONDecodeError ''Expecting : delimiter'')
                      else
                        (case parse_value (skip_ws r2) of
                           Inl e \<Rightarrow> Inl e
                         | Inr (v, r3) \<Rightarrow>
                             (case skip_ws r3 of
                                [] \<Rightarrow> Inl (JSONDecodeError ''Expecting , delimiter'')
                              | d # r4 \<Rightarrow>
                                  if d = CHR ''}'' then Inr (JObj (AList.update key v acc), r4)
                                  else if d = CHR '','' then
                                    parse_members (skip_ws r4) (AList.update key v acc)
                                  else Inl (JSONDecodeError ''Expecting , delimiter''))))))"
| "parse_elems s acc =
     (case parse_value s of
        Inl e \<Rightarrow> Inl e
      | Inr (v, r) \<Rightarrow>
          (case skip_ws r of
             [] \<Rightarrow> Inl (JSONDecodeError ''Expecting , delimiter'')
           | d # r' \<Rightarrow>
               if d = CHR '']'' then Inr (JArr (acc @ [v]), r')
               else if d = CHR '','' then parse_elems (skip_ws r') (acc @ [v])
               else Inl (JSONDecodeError ''Expecting , delimiter'')))"
  by pat_completeness auto

text \<open>
  The mutual recursion ends because every scanner that succeeds leaves less text than it
  was given.
\<close>

lemma skip_ws_le: "length (skip_ws s) \<le> length s"
  by (simp add: skip_ws_def length_dropWhile_le)

lemma cons_parsed_Inr:
  "cons_parsed c p = Inr (str, r) \<Longrightarrow> \<exists>str'. p = Inr (str', r)"
  by (auto simp: cons_parsed_def split: sum.splits)

lemma scanstring_len: "scanstring s = Inr (str, r) \<Longrightarrow> length r < length s"
proof (induction s arbitrary: str r rule: scanstring.induct)
  case 1
  then show ?case by simp
next
  case (2 c cs)
  show ?case
  proof (cases "c = CHR 0x22")
    case True
    with "2.prems" show ?thesis by simp
  next
    case nq: False
    show ?thesis
    proof (cases "c = CHR 0x5C")
      case False
      with nq "2.prems" obtain str' where "scanstring cs = Inr (str', r)"
        by (auto split: if_splits dest: cons_parsed_Inr)
      with "2.IH"(3)[OF nq False] "2.prems" nq False show ?thesis
        by (auto split: if_splits)
    next
      case bs: True
      from "2.prems" nq bs obtain e t where cs: "cs = e # t"
        by (cases cs) auto
      show ?thesis
      proof (cases "e = CHR ''u''")
        case True
        with "2.prems" nq bs cs obtain n str' where
          n: "hex4 (take 4 t) = Some n" "n < 256" and "scanstring (drop 4 t) = Inr (str', r)"
          by (auto split: option.splits if_splits dest: cons_parsed_Inr)
        with "2.IH"(1)[OF nq bs cs True n(1) n(2)] have "length r < length (drop 4 t)"
          by blast
        with cs show ?thesis by simp
      next
        case False
        with "2.prems" nq bs cs obtain ch str' where
          ch: "unescape e = Some ch" and "scanstring t = Inr (str', r)"
          by (auto split: option.splits dest: cons_parsed_Inr)
        with "2.IH"(2)[OF nq bs cs False ch] have "length r < length t"
          by blast
        with cs show ?thesis by simp
      qed
    qed
  qed
qed

lemma opt_minus_app: "opt_minus s = (a, r) \<Longrightarrow> s = a @ r"
  by (auto simp: opt_minus_def split: list.splits if_splits)

lemma int_part_app: "int_part s = Some (a, r) \<Longrightarrow> s = a @ r \<and> a \<noteq> []"
  by (auto simp: int_part_def split: list.splits if_splits)

lemma frac_part_app: "frac_part s = (a, r) \<Longrightarrow> s = a @ r"
  by (auto simp: frac_part_def split: list.splits if_splits)

lemma exp_sign_app: "exp_sign s = (a, r) \<Longrightarrow> s = a @ r"
  by (auto simp: exp_sign_def split: list.splits if_splits)

lemma exp_part_app: "exp_part s = (a, r) \<Longrightarrow> s = a @ r"
  by (auto simp: exp_part_def split: list.splits if_splits prod.splits dest!: exp_sign_app)

lemma match_number_len: "match_number s = Some (v, r) \<Longrightarrow> length r < length s"
  unfolding match_number_def
  by (auto split: prod.splits option.splits if_splits
      dest!: opt_minus_app int_part_app frac_part_app exp_part_app)

lemma strip_prefix_app: "strip_prefix p s = Some r \<Longrightarrow> s = p @ r"
  by (auto simp: strip_prefix_def split: if_splits) (metis append_take_drop_id)

lemma scan_word_len: "scan_word w x s = Some (v, r) \<Longrightarrow> w \<noteq> [] \<Longrightarrow> length r < length s"
  by (auto simp: scan_word_def split: option.splits dest!: strip_prefix_app)

lemma or_else_Some: "or_else a b = Some x \<Longrightarrow> a = Some x \<or> b = Some x"
  by (auto simp: or_else_def split: option.splits)

lemma scan_literal_len: "scan_literal s = Some (v, r) \<Longrightarrow> length r < length s"
  unfolding scan_literal_def
  by (auto dest!: or_else_Some dest: match_number_len scan_word_len)

lemma parse_len:
  "parse_value_parse_members_parse_elems_dom (Inl s) \<Longrightarrow> parse_value s = Inr (v, r) \<Longrightarrow> length r < length s"
  "parse_value_parse_members_parse_elems_dom (Inr (Inl (s1, acc1))) \<Longrightarrow> parse_members s1 acc1 = Inr (v1, r1) \<Longrightarrow> length r1 < length s1"
  "parse_value_parse_members_parse_elems_dom (Inr (Inr (s2, acc2))) \<Longrightarrow> parse_elems s2 acc2 = Inr (v2, r2) \<Longrightarrow> length r2 < length s2"
proof (induct s and s1 acc1 and s2 acc2 arbitrary: v r and v1 r1 and v2 r2 rule: parse_value_parse_members_parse_elems.pinduct)
  case (1 s)
  note dom = "1.hyps"(1)
  note eq = "1.prems"[unfolded parse_value.psimps[OF dom]]
  from eq obtain c t where s: "s = c # t"
    by (cases s) auto
  have sk: "length (skip_ws t) \<le> length t" by (rule skip_ws_le)
  show ?case
  proof (cases "c = CHR 0x22")
    case True
    with eq s show ?thesis
      by (auto split: sum.splits dest: scanstring_len)
  next
    case nq: False
    show ?thesis
    proof (cases "c = CHR ''{''")
      case True
      show ?thesis
      proof (cases "skip_ws t")
        case Nil
        with eq s nq True have "parse_members [] [] = Inr (v, r)"
          by simp
        from "1.hyps"(2)[OF s nq True Nil this] show ?thesis by simp
      next
        case (Cons d t')
        show ?thesis
        proof (cases "d = CHR ''}''")
          case True
          with eq s nq \<open>c = CHR ''{''\<close> Cons sk show ?thesis
            by (auto)
        next
          case False
          with eq s nq \<open>c = CHR ''{''\<close> Cons
          have "parse_members (d # t') [] = Inr (v, r)"
            by simp
          from "1.hyps"(3)[OF s nq \<open>c = CHR ''{''\<close> Cons False this] Cons sk s
          show ?thesis by simp
        qed
      qed
    next
      case nb: False
      show ?thesis
      proof (cases "c = CHR ''[''")
        case True
        show ?thesis
        proof (cases "skip_ws t")
          case Nil
          with eq s nq nb True have "parse_elems [] [] = Inr (v, r)"
            by simp
          from "1.hyps"(4)[OF s nq nb True Nil this] show ?thesis by simp
        next
          case (Cons d t')
          show ?thesis
          proof (cases "d = CHR '']''")
            case True
            with eq s nq nb \<open>c = CHR ''[''\<close> Cons sk show ?thesis
              by (auto)
          next
            case False
            with eq s nq nb \<open>c = CHR ''[''\<close> Cons
            have "parse_elems (d # t') [] = Inr (v, r)"
              by simp
            from "1.hyps"(5)[OF s nq nb \<open>c = CHR ''[''\<close> Cons False this] Cons sk s
            show ?thesis by simp
          qed
        qed
      next
        case False
        with eq s nq nb have "scan_literal s = Some (v, r)"
          by (auto split: option.splits)
        then show ?thesis by (rule scan_literal_len)
      qed
    qed
  qed
next
  case (2 s acc)
  note dom = "2.hyps"(1)
  note eq = "2.prems"[unfolded parse_members.psimps[OF dom]]
  from eq obtain t where s: "s = CHR 0x22 # t"
    by (cases s) (auto split: if_splits)
  from eq s obtain key t1 where k: "scanstring t = Inr (key, t1)"
    by (auto split: sum.splits)
  from eq s k obtain t2 where c: "skip_ws t1 = CHR '':'' # t2"
    by (auto split: list.splits if_splits)
  from eq s k c obtain x t3 where pv: "parse_value (skip_ws t2) = Inr (x, t3)"
    by (auto split: sum.splits)
  from eq s k c pv obtain d t4 where d: "skip_ws t3 = d # t4"
    by (auto split: list.splits)
  have l1: "length t1 < length t" using k by (rule scanstring_len)
  have l2: "length t2 < length t1" using skip_ws_le[of t1] c by simp
  have l3: "length t3 < length (skip_ws t2)"
    using "2.hyps"(2)[of "CHR 0x22" t "(key, t1)" key t1 "CHR '':''" t2 x t3] s k c pv by simp
  have l3': "length t3 < length t2" using l3 skip_ws_le[of t2] by simp
  have l4: "length t4 < length t3" using skip_ws_le[of t3] d by simp
  show ?case
  proof (cases "d = CHR ''}''")
    case True
    with eq s k c pv d have "r1 = t4"
      by simp
    with l1 l2 l3' l4 s show ?thesis by simp
  next
    case False
    with eq s k c pv d have dc: "d = CHR '',''"
      and rc: "parse_members (skip_ws t4) (AList.update key x acc) = Inr (v1, r1)"
      by (auto split: if_splits)
    have "length r1 < length (skip_ws t4)"
      using "2.hyps"(3)[of "CHR 0x22" t "(key, t1)" key t1 "CHR '':''" t2 "(x, t3)" x t3 d t4 v1 r1]
        s k c pv d False dc rc by simp
    with skip_ws_le[of t4] l1 l2 l3' l4 s show ?thesis by simp
  qed
next
  case (3 s acc)
  note dom = "3.hyps"(1)
  note eq = "3.prems"[unfolded parse_elems.psimps[OF dom]]
  from eq obtain x t where pv: "parse_value s = Inr (x, t)"
    by (auto split: sum.splits)
  from eq pv obtain d t' where d: "skip_ws t = d # t'"
    by (auto split: list.splits)
  have l1: "length t < length s" using "3.hyps"(2)[of x t] pv by simp
  have l2: "length t' < length t" using skip_ws_le[of t] d by simp
  show ?case
  proof (cases "d = CHR '']''")
    case True
    with eq pv d have "r2 = t'" by simp
    with l1 l2 show ?thesis by simp
  next
    case False
    with eq pv d have dc: "d = CHR '',''"
      and rc: "parse_elems (skip_ws t') (acc @ [x]) = Inr (v2, r2)"
      by (auto split: if_splits)
    have "length r2 < length (skip_ws t')"
      using "3.hyps"(3)[of "(x, t)" x t d t' v2 r2] pv d False dc rc by simp
    with skip_ws_le[of t'] l1 l2 show ?thesis by simp
  qed
qed


termination parse_value
proof (relation "measure (\<lambda>x. case x of
          Inl s \<Rightarrow> 2 * length s
        | Inr (Inl (s, acc)) \<Rightarrow> 2 * length s + 1
        | Inr (Inr (s, acc)) \<Rightarrow> 2 * length s + 1)", goal_cases)
  case 1
  show ?case by simp
next
  case (2 s c r)
  then show ?case by simp
next
  case (3 s c r d r')
  then show ?case using skip_ws_le[of r] by simp
next
  case (4 s c r)
  then show ?case by simp
next
  case (5 s c r d r')
  then show ?case using skip_ws_le[of r] by simp
next
  case (6 s acc q r b key r1 col r2)
  then show ?case
    using scanstring_len[of r key r1] skip_ws_le[of r1] skip_ws_le[of r2] by simp
next
  case (7 s acc q r b key r1 col r2 b' v r3 d r4)
  then show ?case
    using scanstring_len[of r key r1] skip_ws_le[of r1] skip_ws_le[of r2]
      parse_len(1)[of "skip_ws r2" v r3] skip_ws_le[of r3] skip_ws_le[of r4] by simp
next
  case (8 s acc)
  then show ?case by simp
next
  case (9 s acc b v r d r')
  then show ?case
    using parse_len(1)[of s v r] skip_ws_le[of r] skip_ws_le[of r'] by simp
qed

definition json_loads :: "string \<Rightarrow> py_error + json" where
  "json_loads s =
     (case parse_value (skip_ws s) of
        Inl e \<Rightarrow> Inl e
      | Inr (v, r) \<Rightarrow> if skip_ws r = [] then Inr v else Inl (JSONDecodeError ''Extra data''))"

declare parse_value.simps [simp del] parse_members.simps [simp del] parse_elems.simps [simp del]

section \<open>Extraction: \<^verbatim>\<open>resume_parser.py\<close>\<close>

subsection \<open>\<^verbatim>\<open>get_client\<close>\<close>

text \<open>
  The argument is the value of the environment variable \<^verbatim>\<open>AI_API_KEY\<close>, \<open>None\<close> when
  it is unset.  Both modules define the same function.
\<close>

datatype client = Client string

definition get_client :: "string option \<Rightarrow> py_error + client" where
  "get_client api_key =
     (case api_key of
        None \<Rightarrow> Inl (ValueError ''AI_API_KEY not set in environment'')
      | Some k \<Rightarrow>
          if k = [] then Inl (ValueError ''AI_API_KEY not set in environment'')
          else Inr (Client k))"

subsection \<open>\<^verbatim>\<open>retrieve_chunks\<close>\<close>






subsection \<open>\<^verbatim>\<open>extract_json\<close>\<close>

text \<open>
  The choice of \<^verbatim>\<open>json_str\<close>, which \<^verbatim>\<open>extract_json\<close> and \<^verbatim>\<open>evaluate_candidate\<close> both make
  with the same two searches; they differ in the message of the error.
\<close>

definition find_json_str :: "string \<Rightarrow> string \<Rightarrow> py_error + string" where
  "find_json_str msg text =
     (case search_fenced text of
        Some g \<Rightarrow> Inr g
      | None \<Rightarrow>
          (case search_braces text of
             None \<Rightarrow> Inl (ValueError msg)
           | Some g \<Rightarrow> Inr g))"

definition clean_json_str :: "string \<Rightarrow> string" where
  "clean_json_str json_str = sub_comma (CHR '']'') (sub_comma (CHR ''}'') json_str)"

definition extract_json :: "string \<Rightarrow> py_error + json" where
  "extract_json text =
     (case find_json_str ''JSON not found in AI response'' text of
        Inl e \<Rightarrow> Inl e
      | Inr json_str \<Rightarrow> json_loads (clean_json_str json_str))"

subsection \<open>Fenced blocks\<close>


subsection \<open>JSON with trailing commas\<close>

text \<open>
  This part is no code of the program: it says, in the words of the specification, which
  texts are valid JSON except for trailing commas.  It is stated with the scanners of the
  decoder: \<open>reads lo la s r\<close> holds when a JSON value stands at the head of \<open>s\<close> and
  \<open>r\<close> is the text after it, where a comma (and white space) may stand before the brace
  that closes an object if \<open>lo\<close> holds, and before the bracket that closes an array if
  \<open>la\<close> holds.  \<open>members\<close> reads the pairs of an object up to its closing brace and
  \<open>elems\<close> the elements of an array up to its closing bracket.  With neither comma
  allowed, these are exactly the texts that the decoder accepts (\<open>strict_reads_parse\<close>
  and \<open>parse_strict_reads\<close> below).
\<close>

inductive reads :: "bool \<Rightarrow> bool \<Rightarrow> string \<Rightarrow> string \<Rightarrow> bool"
  and members :: "bool \<Rightarrow> bool \<Rightarrow> string \<Rightarrow> string \<Rightarrow> bool"
  and elems :: "bool \<Rightarrow> bool \<Rightarrow> string \<Rightarrow> string \<Rightarrow> bool"
  for lo la :: bool
where
  r_string: "scanstring t = Inr (str, r) \<Longrightarrow> reads lo la (CHR 0x22 # t) r"
| r_scalar: "c \<noteq> CHR 0x22 \<Longrightarrow> c \<noteq> CHR ''{'' \<Longrightarrow> c \<noteq> CHR ''['' \<Longrightarrow>
     scan_literal (c # t) = Some (v, r) \<Longrightarrow> reads lo la (c # t) r"
| r_empty_object: "skip_ws t = CHR ''}'' # r \<Longrightarrow> reads lo la (CHR ''{'' # t) r"
| r_object: "members lo la (skip_ws t) r \<Longrightarrow> reads lo la (CHR ''{'' # t) r"
| r_empty_array: "skip_ws t = CHR '']'' # r \<Longrightarrow> reads lo la (CHR ''['' # t) r"
| r_array: "elems lo la (skip_ws t) r \<Longrightarrow> reads lo la (CHR ''['' # t) r"
| m_last: "scanstring t = Inr (key, t1) \<Longrightarrow> skip_ws t1 = CHR '':'' # t2 \<Longrightarrow>
     reads lo la (skip_ws t2) t3 \<Longrightarrow> skip_ws t3 = CHR ''}'' # r \<Longrightarrow>
     members lo la (CHR 0x22 # t) r"
| m_more: "scanstring t = Inr (key, t1) \<Longrightarrow> skip_ws t1 = CHR '':'' # t2 \<Longrightarrow>
     reads lo la (skip_ws t2) t3 \<Longrightarrow> skip_ws t3 = CHR '','' # t4 \<Longrightarrow>
     members lo la (skip_ws t4) r \<Longrightarrow> members lo la (CHR 0x22 # t) r"
| m_trailing: "lo \<Longrightarrow> scanstring t = Inr (key, t1) \<Longrightarrow> skip_ws t1 = CHR '':'' # t2 \<Longrightarrow>
     reads lo la (skip_ws t2) t3 \<Longrightarrow> skip_ws t3 = CHR '','' # t4 \<Longrightarrow>
     skip_ws t4 = CHR ''}'' # r \<Longrightarrow> members lo la (CHR 0x22 # t) r"
| e_last: "reads lo la s t1 \<Longrightarrow> skip_ws t1 = CHR '']'' # r \<Longrightarrow> elems lo la s r"
| e_more: "reads lo la s t1 \<Longrightarrow> skip_ws t1 = CHR '','' # t2 \<Longrightarrow>
     elems lo la (skip_ws t2) r \<Longrightarrow> elems lo la s r"
| e_trailing: "la \<Longrightarrow> reads lo la s t1 \<Longrightarrow> skip_ws t1 = CHR '','' # t2 \<Longrightarrow>
     skip_ws t2 = CHR '']'' # r \<Longrightarrow> elems lo la s r"

code_pred (modes: i \<Rightarrow> i \<Rightarrow> i \<Rightarrow> o \<Rightarrow> bool as reads_rest) reads .

text \<open>A whole text of that kind, as \<^verbatim>\<open>json.loads\<close> takes a whole text.\<close>

definition tolerant_json :: "string \<Rightarrow> bool" where
  "tolerant_json s = (\<exists>r. reads True True (skip_ws s) r \<and> skip_ws r = [])"


definition rest_sub :: "char \<Rightarrow> ('a \<times> string) \<Rightarrow> ('a \<times> string)" where
  "rest_sub x p = (fst p, sub_comma x (snd p))"

subsection \<open>\<^verbatim>\<open>generate_candidate_info\<close> and \<^verbatim>\<open>parse_resume\<close>\<close>

text \<open>
  \<open>response\<close> is what the call of the generative service comes to: an exception, or
  the \<^verbatim>\<open>text\<close> of the response, which may be \<^verbatim>\<open>None\<close>.  The prompt only feeds that call.
\<close>

definition response_text :: "py_error + string option \<Rightarrow> py_error + string" where
  "response_text response =
     (case response of
        Inl e \<Rightarrow> Inl e
      | Inr None \<Rightarrow> Inl (TypeError ''expected string or bytes-like object'')
      | Inr (Some ai_text) \<Rightarrow> Inr ai_text)"

definition error_record :: "string \<Rightarrow> json" where
  "error_record msg = JObj [(''error'', JStr msg)]"

definition generate_candidate_info ::
  "string option \<Rightarrow> py_error + string option \<Rightarrow> py_error + json" where
  "generate_candidate_info api_key response =
     (case get_client api_key of
        Inl e \<Rightarrow> Inl e
      | Inr cl \<Rightarrow>
          try_except
            (case response_text response of
               Inl e \<Rightarrow> Inl e
             | Inr ai_text \<Rightarrow> extract_json ai_text)
            (\<lambda>e. Inr (error_record (''Failed to parse resume: '' @ error_text e))))"

text \<open>
  \<open>retrieved\<close> is what loading the PDF, embedding its chunks and retrieving the five
  best ones come to: an exception, or the combined text for the prompt.  The result is the
  returned object; the only error left is \<open>Unmodelled\<close>.
\<close>

definition preliminary_score :: "nat \<Rightarrow> int" where
  "preliminary_score num_skills = min (int num_skills * 10) 100"

definition attach_score :: "json \<Rightarrow> py_error + json" where
  "attach_score candidate =
     (case candidate of
        JObj d \<Rightarrow>
          (case py_len (dict_get d ''skills'' (JArr [])) of
             Inl e \<Rightarrow> Inl e
           | Inr num_skills \<Rightarrow>
               Inr (JObj (AList.update ''preliminary_score'' (JInt (preliminary_score num_skills)) d)))
      | _ \<Rightarrow> Inl (AttributeError ''object has no attribute get''))"

definition parse_resume ::
  "string option \<Rightarrow> py_error + string \<Rightarrow> py_error + string option \<Rightarrow> py_error + json" where
  "parse_resume api_key retrieved response =
     try_except
       (case retrieved of
          Inl e \<Rightarrow> Inl e
        | Inr combined_text \<Rightarrow>
            (case generate_candidate_info api_key response of
               Inl e \<Rightarrow> Inl e
             | Inr candidate \<Rightarrow>
                 (case py_contains ''error'' candidate of
                    Inl e \<Rightarrow> Inl e
                  | Inr True \<Rightarrow> Inr candidate
                  | Inr False \<Rightarrow> attach_score candidate)))
       (\<lambda>e. Inr (error_record (error_text e)))"

text \<open>
  \<^verbatim>\<open>upload_resumes\<close> in \<^verbatim>\<open>main.py\<close> appends a parsed resume to the candidates to rank
  when \<^verbatim>\<open>"error" not in candidate_info\<close>; an exception there skips the file.
\<close>

definition is_ranked :: "json \<Rightarrow> bool" where
  "is_ranked candidate_info =
     (case py_contains ''error'' candidate_info of Inr False \<Rightarrow> True | _ \<Rightarrow> False)"

section \<open>Ranking: \<^verbatim>\<open>candidate_ranker.py\<close>\<close>

subsection \<open>\<^verbatim>\<open>evaluate_candidate\<close>\<close>

text \<open>
  Of the candidate summary only the two joined lists are kept: the other fields are
  formatted with \<^verbatim>\<open>str\<close>, which takes any value.  The summary and the prompt are built
  before the \<^verbatim>\<open>try\<close>, as is the client.
\<close>

definition candidate_summary :: "pydict \<Rightarrow> py_error + string \<times> string" where
  "candidate_summary candidate =
     (case py_join (dict_get candidate ''skills'' (JArr [])) of
        Inl e \<Rightarrow> Inl e
      | Inr skills \<Rightarrow>
          (case py_join (dict_get candidate ''key_achievements'' (JArr [])) of
             Inl e \<Rightarrow> Inl e
           | Inr achievements \<Rightarrow> Inr (skills, achievements)))"

text \<open>The body of the \<^verbatim>\<open>try\<close>: the call, the search for the JSON, the merge.\<close>

definition evaluation_json :: "string \<Rightarrow> py_error + json" where
  "evaluation_json ai_text =
     (case find_json_str ''JSON not found'' ai_text of
        Inl e \<Rightarrow> Inl e
      | Inr json_str \<Rightarrow> json_loads json_str)"

definition enhance :: "pydict \<Rightarrow> py_error + string option \<Rightarrow> py_error + pydict" where
  "enhance candidate response =
     (case response_text response of
        Inl e \<Rightarrow> Inl e
      | Inr ai_text \<Rightarrow>
          (case evaluation_json ai_text of
             Inl e \<Rightarrow> Inl e
           | Inr (JObj evaluation) \<Rightarrow> Inr (dict_merge candidate evaluation)
           | Inr _ \<Rightarrow> Inl (TypeError ''object is not a mapping'')))"

definition fallback :: "pydict \<Rightarrow> pydict" where
  "fallback candidate =
     dict_merge candidate
       [(''score'', dict_get candidate ''preliminary_score'' (JInt 50)),
        (''match_percentage'', JInt 50),
        (''summary'', JStr ''Unable to generate detailed assessment''),
        (''strengths'', JArr [JStr ''Evaluation pending'']),
        (''gaps'', JArr []),
        (''recommendation'', JStr ''moderate_fit'')]"

text \<open>The fields that an evaluation is meant to set.\<close>

definition scoring_fields :: "string list" where
  "scoring_fields =
     [''score'', ''match_percentage'', ''summary'', ''strengths'', ''gaps'', ''recommendation'']"

definition evaluate_candidate ::
  "string option \<Rightarrow> py_error + string option \<Rightarrow> pydict \<Rightarrow> string \<Rightarrow> py_error + pydict" where
  "evaluate_candidate api_key response candidate job_description =
     (case get_client api_key of
        Inl e \<Rightarrow> Inl e
      | Inr cl \<Rightarrow>
          (case candidate_summary candidate of
             Inl e \<Rightarrow> Inl e
           | Inr summary \<Rightarrow>
               try_except (enhance candidate response) (\<lambda>e. Inr (fallback candidate))))"

subsection \<open>\<^verbatim>\<open>rank_candidates\<close>\<close>

text \<open>
  \<^verbatim>\<open>sorted(xs, key=..., reverse=True)\<close>.  The list is reversed, sorted stably in
  ascending order of the keys and reversed again.  The keys are compared with \<^verbatim>\<open><\<close>:
  integers and booleans by value, strings by code points; \<^verbatim>\<open>None\<close> and dictionaries are
  never ordered, and values of two kinds are not ordered with each other.  A list of at
  most one element is not compared at all.
\<close>

datatype key_kind = Number | String | Sequence | Unordered

fun kind_of :: "json \<Rightarrow> key_kind" where
  "kind_of (JInt i) = Number"
| "kind_of (JBool b) = Number"
| "kind_of (JFloat f) = Number"
| "kind_of (JStr s) = String"
| "kind_of (JArr xs) = Sequence"
| "kind_of JNull = Unordered"
| "kind_of (JObj d) = Unordered"

fun is_int_key :: "json \<Rightarrow> bool" where
  "is_int_key (JInt i) = True"
| "is_int_key (JBool b) = True"
| "is_int_key v = False"

fun int_key :: "json \<Rightarrow> int" where
  "int_key (JInt i) = i"
| "int_key (JBool b) = (if b then 1 else 0)"
| "int_key v = 0"

fun is_str_key :: "json \<Rightarrow> bool" where
  "is_str_key (JStr s) = True"
| "is_str_key v = False"

fun str_key :: "json \<Rightarrow> string" where
  "str_key (JStr s) = s"
| "str_key v = []"



definition sorted_reverse :: "('a \<Rightarrow> json) \<Rightarrow> 'a list \<Rightarrow> py_error + 'a list" where
  "sorted_reverse key xs =
     (let ks = map key xs in
      if length xs \<le> 1 then Inr xs
      else if list_all is_int_key ks
        then Inr (rev (sort_key (\<lambda>x. int_key (key x)) (rev xs)))
      else if list_all is_str_key ks
        then Inr (rev (sort_key (\<lambda>x. str_key (key x)) (rev xs)))
      else if list_ex (\<lambda>k. kind_of k = Unordered \<or> kind_of k \<noteq> kind_of (hd ks)) ks
        then Inl (TypeError ''< not supported between instances'')
      else Inl (Unmodelled ''sort keys that are floats or lists''))"

definition score_key :: "pydict \<Rightarrow> json" where
  "score_key x = dict_get x ''score'' (JInt 0)"

text \<open>
  \<open>responses i\<close> is what the call of the generative service for the candidate at
  index \<open>i\<close> comes to.
\<close>

definition evaluate_all ::
  "string option \<Rightarrow> (nat \<Rightarrow> py_error + string option) \<Rightarrow> pydict list \<Rightarrow> string
    \<Rightarrow> (py_error + pydict) list" where
  "evaluate_all api_key responses candidates job_description =
     map (\<lambda>(i, candidate). evaluate_candidate api_key (responses i) candidate job_description)
       (enumerate 0 candidates)"

definition rank_candidates ::
  "string option \<Rightarrow> (nat \<Rightarrow> py_error + string option) \<Rightarrow> pydict list \<Rightarrow> string
    \<Rightarrow> py_error + pydict list" where
  "rank_candidates api_key responses candidates job_description =
     (if candidates = [] then Inr []
      else
        (case gather (evaluate_all api_key responses candidates job_description) of
           Inl e \<Rightarrow> Inl e
         | Inr evaluated_candidates \<Rightarrow> sorted_reverse score_key evaluated_candidates))"


section \<open>Dictionaries, handlers and gathered results\<close>

lemma map_of_dict_merge: "map_of (dict_merge a b) = map_of a ++ map_of (rev b)"
  unfolding dict_merge_def
proof (induction b arbitrary: a)
  case Nil
  show ?case by simp
next
  case (Cons x b)
  obtain k v where x: "x = (k, v)" by (cases x)
  have "map_of (fold (\<lambda>(k, v). AList.update k v) (x # b) a)
      = map_of (AList.update k v a) ++ map_of (rev b)"
    using Cons.IH[of "AList.update k v a"] x by simp
  also have "\<dots> = map_of a ++ map_of (rev (x # b))"
    by (simp add: x update_conv' map_add_upd_left)
  finally show ?case .
qed

lemma dict_merge_other: "k \<notin> fst ` set b \<Longrightarrow> map_of (dict_merge a b) k = map_of a k"
  by (simp add: map_of_dict_merge map_add_def map_of_eq_None_iff split: option.splits)
    (metis map_of_eq_None_iff option.distinct(1) set_rev)

lemma has_key_dict_merge: "has_key a k \<Longrightarrow> has_key (dict_merge a b) k"
  by (auto simp: has_key_def map_of_dict_merge map_add_def split: option.splits)

lemma try_except_Inr [simp]: "try_except (Inr x) h = Inr x"
  by (simp add: try_except_def)

lemma try_except_Inl [simp]: "is_exception e \<Longrightarrow> try_except (Inl e) h = h e"
  by (simp add: try_except_def)

lemma fallback_fields:
  "map_of (fallback c) ''score'' = Some (dict_get c ''preliminary_score'' (JInt 50))"
  "map_of (fallback c) ''match_percentage'' = Some (JInt 50)"
  "map_of (fallback c) ''summary'' = Some (JStr ''Unable to generate detailed assessment'')"
  "map_of (fallback c) ''strengths'' = Some (JArr [JStr ''Evaluation pending''])"
  "map_of (fallback c) ''gaps'' = Some (JArr [])"
  "map_of (fallback c) ''recommendation'' = Some (JStr ''moderate_fit'')"
  by (simp_all add: fallback_def map_of_dict_merge)

lemma fallback_other:
  "k \<notin> set scoring_fields \<Longrightarrow> map_of (fallback c) k = map_of c k"
  by (simp add: fallback_def scoring_fields_def dict_merge_other)

lemma enhance_fails:
  assumes "response_text response = Inl e
      \<or> (\<exists>ai_text. response_text response = Inr ai_text \<and> evaluation_json ai_text = Inl e)"
  shows "enhance candidate response = Inl e"
  using assms by (auto simp: enhance_def)

section \<open>Sorting in descending order of the score\<close>

lemma gather_Inr: "gather rs = Inr xs \<Longrightarrow> rs = map Inr xs"
proof (induction rs arbitrary: xs)
  case Nil
  then show ?case by simp
next
  case (Cons r rs)
  then show ?case by (auto split: sum.splits)
qed

lemma gather_map_Inr [simp]: "gather (map Inr xs) = Inr xs"
  by (induction xs) auto

lemma length_evaluate_all [simp]: "length (evaluate_all api_key responses cs jd) = length cs"
  by (simp add: evaluate_all_def)

lemma nth_evaluate_all:
  "i < length cs \<Longrightarrow>
     evaluate_all api_key responses cs jd ! i = evaluate_candidate api_key (responses i) (cs ! i) jd"
  by (simp add: evaluate_all_def nth_enumerate_eq)

lemma gather_evaluate_all:
  assumes "gather (evaluate_all api_key responses cs jd) = Inr evs"
  shows "length evs = length cs
    \<and> (\<forall>i<length cs. evaluate_candidate api_key (responses i) (cs ! i) jd = Inr (evs ! i))"
proof -
  from assms have eq: "evaluate_all api_key responses cs jd = map Inr evs"
    by (rule gather_Inr)
  then have len: "length evs = length cs"
    by (metis length_evaluate_all length_map)
  moreover have "evaluate_candidate api_key (responses i) (cs ! i) jd = Inr (evs ! i)"
    if "i < length cs" for i
    using nth_evaluate_all[OF that, of api_key responses jd] eq len that by simp
  ultimately show ?thesis by blast
qed

lemma sorted_reverse_cases:
  assumes "sorted_reverse key xs = Inr out"
  shows "(length xs \<le> 1 \<and> out = xs)
    \<or> (list_all is_int_key (map key xs) \<and> out = rev (sort_key (\<lambda>x. int_key (key x)) (rev xs)))
    \<or> (list_all is_str_key (map key xs) \<and> out = rev (sort_key (\<lambda>x. str_key (key x)) (rev xs)))"
  using assms by (auto simp: sorted_reverse_def Let_def split: if_splits)

lemma mset_sorted_reverse: "sorted_reverse key xs = Inr out \<Longrightarrow> mset out = mset xs"
  by (auto dest!: sorted_reverse_cases)








lemma rank_candidates_Inr:
  assumes "rank_candidates api_key responses cs jd = Inr ranked"
  shows "\<exists>evs. gather (evaluate_all api_key responses cs jd) = Inr evs
     \<and> sorted_reverse score_key evs = Inr ranked"
proof (cases "cs = []")
  case True
  with assms show ?thesis
    by (simp add: rank_candidates_def evaluate_all_def sorted_reverse_def)
next
  case False
  with assms show ?thesis
    by (auto simp: rank_candidates_def split: sum.splits)
qed

section \<open>Retrieval of the best chunks\<close>









section \<open>What the recovery of JSON returns\<close>

text \<open>
  Both searches return a text that begins with a brace, so a value decoded from it is a
  dictionary; its keys are distinct.
\<close>

lemma parse_members_object:
  "parse_value s = Inr (v, r) \<Longrightarrow> True"
  "parse_members s1 acc1 = Inr (v1, r1) \<Longrightarrow> distinct (map fst acc1) \<Longrightarrow>
     \<exists>d. v1 = JObj d \<and> distinct (map fst d)"
  "parse_elems s2 acc2 = Inr (v2, r2) \<Longrightarrow> True"
proof (induct s and s1 acc1 and s2 acc2 arbitrary: v r and v1 r1 and v2 r2
    rule: parse_value_parse_members_parse_elems.induct)
  case (1 s)
  show ?case by simp
next
  case (2 s acc)
  note eq = "2.prems"(1)[unfolded parse_members.simps[of s acc]]
  from eq obtain t where s: "s = CHR 0x22 # t"
    by (cases s) (auto split: if_splits)
  from eq s obtain key t1 where k: "scanstring t = Inr (key, t1)"
    by (auto split: sum.splits)
  from eq s k obtain t2 where c: "skip_ws t1 = CHR '':'' # t2"
    by (auto split: list.splits if_splits)
  from eq s k c obtain x t3 where pv: "parse_value (skip_ws t2) = Inr (x, t3)"
    by (auto split: sum.splits)
  from eq s k c pv obtain d t4 where d: "skip_ws t3 = d # t4"
    by (auto split: list.splits)
  have dist: "distinct (map fst (AList.update key x acc))"
    using "2.prems"(2) by (rule distinct_update)
  show ?case
  proof (cases "d = CHR ''}''")
    case True
    with eq s k c pv d have "v1 = JObj (AList.update key x acc)" by simp
    with dist show ?thesis by simp
  next
    case False
    with eq s k c pv d have dc: "d = CHR '',''"
      and rc: "parse_members (skip_ws t4) (AList.update key x acc) = Inr (v1, r1)"
      by (auto split: if_splits)
    show ?thesis
      using "2.hyps"(2)[of "CHR 0x22" t "(key, t1)" key t1 "CHR '':''" t2 "(x, t3)" x t3 d t4 v1 r1]
        s k c pv d False dc rc dist by simp
  qed
next
  case (3 s acc)
  show ?case by simp
qed

lemma parse_value_object:
  assumes "parse_value (CHR ''{'' # t) = Inr (v, r)"
  shows "\<exists>d. v = JObj d \<and> distinct (map fst d)"
proof -
  note eq = assms[unfolded parse_value.simps[of "CHR ''{'' # t"]]
  show ?thesis
  proof (cases "skip_ws t")
    case Nil
    with eq have "parse_members [] [] = Inr (v, r)" by simp
    then show ?thesis by (simp add: parse_members.simps[of "[]"])
  next
    case (Cons d t')
    show ?thesis
    proof (cases "d = CHR ''}''")
      case True
      with eq Cons show ?thesis by auto
    next
      case False
      with eq Cons have "parse_members (d # t') [] = Inr (v, r)" by simp
      from parse_members_object(2)[OF this] show ?thesis by simp
    qed
  qed
qed

lemma skip_ws_brace [simp]: "skip_ws (CHR ''{'' # t) = CHR ''{'' # t"
  by (simp add: skip_ws_def is_json_ws_def)

lemma json_loads_object:
  assumes "json_loads (CHR ''{'' # t) = Inr v"
  shows "\<exists>d. v = JObj d \<and> distinct (map fst d)"
proof -
  from assms obtain r where "parse_value (CHR ''{'' # t) = Inr (v, r)"
    by (auto simp: json_loads_def split: sum.splits if_splits)
  then show ?thesis by (rule parse_value_object)
qed

lemma lazy_close_not_Nil: "lazy_close t \<noteq> Some []"
  by (induction t) auto

lemma fenced_at_brace: "fenced_at s = Some g \<Longrightarrow> \<exists>t. g = CHR ''{'' # t"
  by (auto simp: fenced_at_def split: option.splits list.splits if_splits)

lemma search_fenced_brace: "search_fenced s = Some g \<Longrightarrow> \<exists>t. g = CHR ''{'' # t"
  by (induction s) (auto split: option.splits dest: fenced_at_brace)

lemma dropWhile_hd: "dropWhile P s = b # t \<Longrightarrow> \<not> P b"
  by (metis hd_dropWhile list.sel(1) list.distinct(1))

lemma search_braces_brace: "search_braces s = Some g \<Longrightarrow> \<exists>t. g = CHR ''{'' # t"
  by (auto simp: search_braces_def split: list.splits if_splits dest: dropWhile_hd)

lemma find_json_str_brace: "find_json_str msg text = Inr g \<Longrightarrow> \<exists>t. g = CHR ''{'' # t"
  by (auto simp: find_json_str_def split: option.splits
      dest: search_fenced_brace search_braces_brace)

lemma clean_json_str_brace: "\<exists>t'. clean_json_str (CHR ''{'' # t) = CHR ''{'' # t'"
  by (simp add: clean_json_str_def)

lemma extract_json_object:
  assumes "extract_json text = Inr v"
  shows "\<exists>d. v = JObj d \<and> distinct (map fst d)"
proof -
  from assms obtain g where g: "find_json_str ''JSON not found in AI response'' text = Inr g"
    and l: "json_loads (clean_json_str g) = Inr v"
    by (auto simp: extract_json_def split: sum.splits)
  from find_json_str_brace[OF g] obtain t where "g = CHR ''{'' # t" by blast
  with clean_json_str_brace[of t] l obtain t' where "json_loads (CHR ''{'' # t') = Inr v"
    by auto
  then show ?thesis by (rule json_loads_object)
qed

lemma evaluation_json_object:
  assumes "evaluation_json text = Inr v"
  shows "\<exists>d. v = JObj d \<and> distinct (map fst d)"
proof -
  from assms obtain g where g: "find_json_str ''JSON not found'' text = Inr g"
    and l: "json_loads g = Inr v"
    by (auto simp: evaluation_json_def split: sum.splits)
  from find_json_str_brace[OF g] l show ?thesis
    by (auto dest: json_loads_object)
qed

section \<open>The ways through \<^verbatim>\<open>parse_resume\<close>\<close>

lemma try_except_handler_Inr:
  assumes "try_except body (\<lambda>e. Inr (h e)) = Inr x"
  shows "body = Inr x \<or> (\<exists>e. body = Inl e \<and> is_exception e \<and> x = h e)"
  using assms by (auto simp: try_except_def split: sum.splits if_splits)

lemma generate_candidate_info_cases:
  assumes "generate_candidate_info api_key response = Inr c"
  shows "(\<exists>m. c = error_record m)
    \<or> (\<exists>ai_text d. response = Inr (Some ai_text) \<and> extract_json ai_text = Inr (JObj d)
          \<and> distinct (map fst d) \<and> c = JObj d)"
proof -
  from assms obtain cl where "get_client api_key = Inr cl"
    and t: "try_except
            (case response_text response of Inl e \<Rightarrow> Inl e | Inr ai_text \<Rightarrow> extract_json ai_text)
            (\<lambda>e. Inr (error_record (''Failed to parse resume: '' @ error_text e))) = Inr c"
    by (auto simp: generate_candidate_info_def split: sum.splits)
  from try_except_handler_Inr[OF t] show ?thesis
  proof
    assume "(case response_text response of Inl e \<Rightarrow> Inl e | Inr ai_text \<Rightarrow> extract_json ai_text) = Inr c"
    then obtain ai_text where rt: "response_text response = Inr ai_text"
      and ex: "extract_json ai_text = Inr c"
      by (auto split: sum.splits)
    from rt have "response = Inr (Some ai_text)"
      by (auto simp: response_text_def split: sum.splits option.splits)
    with ex extract_json_object[OF ex] show ?thesis by auto
  next
    assume "\<exists>e. (case response_text response of Inl e \<Rightarrow> Inl e | Inr ai_text \<Rightarrow> extract_json ai_text) = Inl e
        \<and> is_exception e \<and> c = error_record (''Failed to parse resume: '' @ error_text e)"
    then show ?thesis by blast
  qed
qed

lemma has_key_error_record [simp]: "py_contains ''error'' (error_record m) = Inr True"
  by (simp add: error_record_def has_key_def)

lemma attach_score_Inr:
  assumes "attach_score (JObj d) = Inr result"
  shows "\<exists>n. py_len (dict_get d ''skills'' (JArr [])) = Inr n
     \<and> result = JObj (AList.update ''preliminary_score'' (JInt (preliminary_score n)) d)"
  using assms by (auto simp: attach_score_def split: sum.splits)

lemma parse_resume_cases:
  assumes "parse_resume api_key retrieved response = Inr result"
  shows "(\<exists>m. result = error_record m)
    \<or> (\<exists>ai_text d. response = Inr (Some ai_text) \<and> extract_json ai_text = Inr (JObj d)
          \<and> has_key d ''error'' \<and> result = JObj d)
    \<or> (\<exists>ai_text d n. response = Inr (Some ai_text) \<and> extract_json ai_text = Inr (JObj d)
          \<and> \<not> has_key d ''error''
          \<and> py_len (dict_get d ''skills'' (JArr [])) = Inr n
          \<and> result = JObj (AList.update ''preliminary_score'' (JInt (preliminary_score n)) d))"
proof -
  let ?body = "case retrieved of
          Inl e \<Rightarrow> Inl e
        | Inr combined_text \<Rightarrow>
            (case generate_candidate_info api_key response of
               Inl e \<Rightarrow> Inl e
             | Inr candidate \<Rightarrow>
                 (case py_contains ''error'' candidate of
                    Inl e \<Rightarrow> Inl e
                  | Inr True \<Rightarrow> Inr candidate
                  | Inr False \<Rightarrow> attach_score candidate))"
  from assms have "try_except ?body (\<lambda>e. Inr (error_record (error_text e))) = Inr result"
    by (simp add: parse_resume_def)
  from try_except_handler_Inr[OF this] show ?thesis
  proof
    assume b: "?body = Inr result"
    then obtain c where g: "generate_candidate_info api_key response = Inr c"
      and rest: "(case py_contains ''error'' c of
                    Inl e \<Rightarrow> Inl e
                  | Inr True \<Rightarrow> Inr c
                  | Inr False \<Rightarrow> attach_score c) = Inr result"
      by (auto split: sum.splits)
    from generate_candidate_info_cases[OF g] show ?thesis
    proof
      assume "\<exists>m. c = error_record m"
      with rest show ?thesis by auto
    next
      assume "\<exists>ai_text d. response = Inr (Some ai_text) \<and> extract_json ai_text = Inr (JObj d)
          \<and> distinct (map fst d) \<and> c = JObj d"
      then obtain ai_text d where r: "response = Inr (Some ai_text)"
        and e: "extract_json ai_text = Inr (JObj d)" and c: "c = JObj d"
        by blast
      show ?thesis
      proof (cases "has_key d ''error''")
        case True
        with rest c have "result = JObj d" by simp
        with r e True show ?thesis by blast
      next
        case False
        with rest c have "attach_score (JObj d) = Inr result" by simp
        from attach_score_Inr[OF this] r e False show ?thesis by blast
      qed
    qed
  next
    assume "\<exists>e. ?body = Inl e \<and> is_exception e \<and> result = error_record (error_text e)"
    then show ?thesis by blast
  qed
qed

lemma preliminary_score_range: "0 \<le> preliminary_score n \<and> preliminary_score n \<le> 100"
  by (simp add: preliminary_score_def)

lemma preliminary_score_min: "preliminary_score n = min (10 * int n) 100"
  by (simp add: preliminary_score_def mult.commute)

lemma not_has_key_error_record: "JObj r = error_record m \<Longrightarrow> has_key r ''error''"
  by (simp add: error_record_def has_key_def)

lemma attached_score:
  assumes "py_len (dict_get d ''skills'' (JArr [])) = Inr n"
    and "r = AList.update ''preliminary_score'' (JInt (preliminary_score n)) d"
  shows "map_of r ''preliminary_score'' = Some (JInt (min (10 * int n) 100))"
    and "map_of d ''skills'' = None \<longrightarrow> n = 0"
    and "\<forall>xs. map_of d ''skills'' = Some (JArr xs) \<longrightarrow> n = length xs"
    and "\<forall>k. k \<noteq> ''preliminary_score'' \<longrightarrow> map_of r k = map_of d k"
proof -
  show "map_of r ''preliminary_score'' = Some (JInt (min (10 * int n) 100))"
    using assms(2) by (simp add: update_conv' preliminary_score_min)
  show "map_of d ''skills'' = None \<longrightarrow> n = 0"
    using assms(1) by (auto simp: dict_get_def)
  show "\<forall>xs. map_of d ''skills'' = Some (JArr xs) \<longrightarrow> n = length xs"
    using assms(1) by (auto simp: dict_get_def)
  show "\<forall>k. k \<noteq> ''preliminary_score'' \<longrightarrow> map_of r k = map_of d k"
    using assms(2) by (simp add: update_conv')
qed

lemma is_ranked_JObj: "is_ranked (JObj r) \<longleftrightarrow> \<not> has_key r ''error''"
  by (simp add: is_ranked_def split: bool.splits)

lemma has_key_update: "has_key (AList.update k v d) k' \<longleftrightarrow> k' = k \<or> has_key d k'"
  by (simp add: has_key_def update_conv')

lemma parse_resume_own_error:
  assumes "retrieved = Inr combined_text" and "get_client api_key = Inr cl"
    and "response = Inr (Some ai_text)" and "extract_json ai_text = Inr (JObj d)"
    and "has_key d ''error''"
  shows "parse_resume api_key retrieved response = Inr (JObj d)"
  using assms
  by (simp add: parse_resume_def generate_candidate_info_def response_text_def)

section \<open>The ways through \<^verbatim>\<open>evaluate_candidate\<close>\<close>

lemma map_of_rev_distinct: "distinct (map fst xs) \<Longrightarrow> map_of (rev xs) = map_of xs"
proof (induction xs)
  case Nil
  show ?case by simp
next
  case (Cons x xs)
  obtain k v where x: "x = (k, v)" by (cases x)
  from Cons.prems x have none: "map_of xs k = None"
    by (simp add: map_of_eq_None_iff)
  from Cons have ih: "map_of (rev xs) = map_of xs" by simp
  have "map_of (rev (x # xs)) = map_of [x] ++ map_of xs"
    by (simp add: ih)
  also have "\<dots> = map_of (x # xs)"
    using none by (auto simp: x map_add_def split: option.splits)
  finally show ?case .
qed

lemma map_of_dict_merge_distinct:
  "distinct (map fst b) \<Longrightarrow>
     map_of (dict_merge a b) k = (case map_of b k of Some v \<Rightarrow> Some v | None \<Rightarrow> map_of a k)"
  by (simp add: map_of_dict_merge map_of_rev_distinct map_add_def)

lemma enhance_Inr:
  assumes "enhance candidate response = Inr r"
  shows "\<exists>ai_text evaluation. response = Inr (Some ai_text)
      \<and> evaluation_json ai_text = Inr (JObj evaluation)
      \<and> distinct (map fst evaluation)
      \<and> r = dict_merge candidate evaluation"
proof -
  from assms obtain ai_text where rt: "response_text response = Inr ai_text"
    by (auto simp: enhance_def split: sum.splits)
  then have resp: "response = Inr (Some ai_text)"
    by (auto simp: response_text_def split: sum.splits option.splits)
  from assms rt obtain v where ev: "evaluation_json ai_text = Inr v"
    by (auto simp: enhance_def split: sum.splits)
  from evaluation_json_object[OF ev] obtain evaluation where
    v: "v = JObj evaluation" and d: "distinct (map fst evaluation)"
    by blast
  from assms rt ev v have "r = dict_merge candidate evaluation"
    by (simp add: enhance_def)
  with resp ev v d show ?thesis by blast
qed

lemma evaluate_candidate_Inr:
  assumes "evaluate_candidate api_key response candidate jd = Inr r"
  shows "r = fallback candidate \<or> enhance candidate response = Inr r"
  using assms
  by (auto simp: evaluate_candidate_def try_except_def split: sum.splits if_splits)

lemma has_key_fallback: "has_key c k \<Longrightarrow> has_key (fallback c) k"
  by (simp add: fallback_def has_key_dict_merge)

lemma evaluate_candidate_has_key:
  assumes "evaluate_candidate api_key response candidate jd = Inr r" and "has_key candidate k"
  shows "has_key r k"
proof -
  from evaluate_candidate_Inr[OF assms(1)] show ?thesis
  proof
    assume "r = fallback candidate"
    with assms(2) show ?thesis by (simp add: has_key_fallback)
  next
    assume "enhance candidate response = Inr r"
    from enhance_Inr[OF this] assms(2) show ?thesis
      by (auto simp: has_key_dict_merge)
  qed
qed

lemma rank_candidates_members:
  assumes "rank_candidates api_key responses candidates jd = Inr ranked" and "r \<in> set ranked"
  shows "\<exists>i<length candidates. evaluate_candidate api_key (responses i) (candidates ! i) jd = Inr r"
proof -
  from rank_candidates_Inr[OF assms(1)] obtain evs where
    g: "gather (evaluate_all api_key responses candidates jd) = Inr evs"
    and s: "sorted_reverse score_key evs = Inr ranked"
    by blast
  have "set ranked = set evs"
    using mset_sorted_reverse[OF s] by (rule mset_eq_setD)
  with assms(2) obtain i where i: "i < length evs" "evs ! i = r"
    by (auto simp: in_set_conv_nth)
  with gather_evaluate_all[OF g] show ?thesis by auto
qed

lemma evaluate_candidate_raises:
  assumes "evaluate_candidate api_key response candidate jd = Inl e" and "is_exception e"
  shows "get_client api_key = Inl e \<or> candidate_summary candidate = Inl e"
proof (cases "get_client api_key")
  case (Inl a)
  with assms(1) show ?thesis by (simp add: evaluate_candidate_def)
next
  case cl: (Inr c)
  show ?thesis
  proof (cases "candidate_summary candidate")
    case (Inl a)
    with cl assms(1) show ?thesis by (simp add: evaluate_candidate_def)
  next
    case (Inr s)
    with cl assms show ?thesis
      by (auto simp: evaluate_candidate_def try_except_def split: sum.splits if_splits)
  qed
qed

section \<open>The substitution and the scanners\<close>



declare sub_comma.simps(2) [simp del]







lemma skip_ws_Cons_ws [simp]: "is_json_ws c \<Longrightarrow> skip_ws (c # t) = skip_ws t"
  by (simp add: skip_ws_def)

lemma skip_ws_Cons_other [simp]: "\<not> is_json_ws c \<Longrightarrow> skip_ws (c # t) = c # t"
  by (simp add: skip_ws_def)


lemma skip_ws_hd: "skip_ws s = d # r \<Longrightarrow> \<not> is_json_ws d"
  unfolding skip_ws_def by (rule dropWhile_hd)






declare scanstring.simps(2) [simp del]
















lemma strip_prefix_Nil [simp]: "strip_prefix [] s = Some s"
  by (simp add: strip_prefix_def)

lemma strip_prefix_Cons_Nil [simp]: "strip_prefix (a # w) [] = None"
  by (simp add: strip_prefix_def)

lemma strip_prefix_Cons_Cons [simp]:
  "strip_prefix (a # w) (c # t) = (if a = c then strip_prefix w t else None)"
  by (auto simp: strip_prefix_def)


lemma rest_sub_pair [simp]: "rest_sub x (a, r) = (a, sub_comma x r)"
  by (simp add: rest_sub_def)











section \<open>Trailing commas\<close>











lemma parse_strict_reads:
  "parse_value s = Inr (v, r) \<Longrightarrow> reads False False s r"
  "parse_members s1 acc1 = Inr (v1, r1) \<Longrightarrow> members False False s1 r1"
  "parse_elems s2 acc2 = Inr (v2, r2) \<Longrightarrow> elems False False s2 r2"
proof (induct s and s1 acc1 and s2 acc2 arbitrary: v r and v1 r1 and v2 r2
    rule: parse_value_parse_members_parse_elems.induct)
  case (1 s)
  note eq = "1.prems"[unfolded parse_value.simps[of s]]
  from eq obtain c t where s: "s = c # t" by (cases s) auto
  show ?case
  proof (cases "c = CHR 0x22")
    case True
    with eq s obtain str where "scanstring t = Inr (str, r)"
      by (auto split: sum.splits)
    with True s show ?thesis by (auto intro: r_string)
  next
    case nq: False
    show ?thesis
    proof (cases "c = CHR ''{''")
      case True
      show ?thesis
      proof (cases "skip_ws t")
        case Nil
        with eq s nq True have "parse_members [] [] = Inr (v, r)" by simp
        then show ?thesis by (simp add: parse_members.simps[of "[]"])
      next
        case (Cons d t')
        show ?thesis
        proof (cases "d = CHR ''}''")
          case cl: True
          with eq s nq True Cons have "r = t'" by simp
          with cl Cons True s show ?thesis by (auto intro: r_empty_object)
        next
          case False
          with eq s nq True Cons have "parse_members (d # t') [] = Inr (v, r)" by simp
          from "1.hyps"(2)[OF s nq True Cons False this] Cons True s show ?thesis
            by (auto intro: r_object)
        qed
      qed
    next
      case nb: False
      show ?thesis
      proof (cases "c = CHR ''[''")
        case True
        show ?thesis
        proof (cases "skip_ws t")
          case Nil
          with eq s nq nb True have "parse_elems [] [] = Inr (v, r)" by simp
          then show ?thesis
            by (simp add: parse_elems.simps[of "[]"] parse_value.simps[of "[]"])
        next
          case (Cons d t')
          show ?thesis
          proof (cases "d = CHR '']''")
            case cl: True
            with eq s nq nb True Cons have "r = t'" by simp
            with cl Cons True s show ?thesis by (auto intro: r_empty_array)
          next
            case False
            with eq s nq nb True Cons have "parse_elems (d # t') [] = Inr (v, r)" by simp
            from "1.hyps"(4)[OF s nq nb True Cons False this] Cons True s show ?thesis
              by (auto intro: r_array)
          qed
        qed
      next
        case False
        with eq s nq nb have "scan_literal (c # t) = Some (v, r)"
          by (auto split: option.splits)
        with nq nb False s show ?thesis by (auto intro: r_scalar)
      qed
    qed
  qed
next
  case (2 s acc)
  note eq = "2.prems"[unfolded parse_members.simps[of s acc]]
  from eq obtain t where s: "s = CHR 0x22 # t"
    by (cases s) (auto split: if_splits)
  from eq s obtain key t1 where k: "scanstring t = Inr (key, t1)"
    by (auto split: sum.splits)
  from eq s k obtain t2 where c: "skip_ws t1 = CHR '':'' # t2"
    by (auto split: list.splits if_splits)
  from eq s k c obtain x t3 where pv: "parse_value (skip_ws t2) = Inr (x, t3)"
    by (auto split: sum.splits)
  from eq s k c pv obtain d t4 where d: "skip_ws t3 = d # t4"
    by (auto split: list.splits)
  have rv: "reads False False (skip_ws t2) t3"
    using "2.hyps"(1)[of "CHR 0x22" t "(key, t1)" key t1 "CHR '':''" t2 x t3] s k c pv by simp
  show ?case
  proof (cases "d = CHR ''}''")
    case True
    with eq s k c pv d have "r1 = t4" by simp
    with k c rv d True s show ?thesis by (auto intro: m_last)
  next
    case False
    with eq s k c pv d have dc: "d = CHR '',''"
      and rc: "parse_members (skip_ws t4) (AList.update key x acc) = Inr (v1, r1)"
      by (auto split: if_splits)
    have "members False False (skip_ws t4) r1"
      using "2.hyps"(2)[of "CHR 0x22" t "(key, t1)" key t1 "CHR '':''" t2 "(x, t3)" x t3 d t4 v1 r1]
        s k c pv d False dc rc by simp
    with k c rv d dc s show ?thesis by (auto intro: m_more)
  qed
next
  case (3 s acc)
  note eq = "3.prems"[unfolded parse_elems.simps[of s acc]]
  from eq obtain x t where pv: "parse_value s = Inr (x, t)"
    by (auto split: sum.splits)
  from eq pv obtain d t' where d: "skip_ws t = d # t'"
    by (auto split: list.splits)
  have rv: "reads False False s t" using "3.hyps"(1)[OF pv] .
  show ?case
  proof (cases "d = CHR '']''")
    case True
    with eq pv d have "r2 = t'" by simp
    with rv d True show ?thesis by (auto intro: e_last)
  next
    case False
    with eq pv d have dc: "d = CHR '',''"
      and rc: "parse_elems (skip_ws t') (acc @ [x]) = Inr (v2, r2)"
      by (auto split: if_splits)
    have "elems False False (skip_ws t') r2"
      using "3.hyps"(2)[of "(x, t)" x t d t' v2 r2] pv d False dc rc by simp
    with rv d dc show ?thesis by (auto intro: e_more)
  qed
qed

lemma reads_tolerant:
  "reads False False s r \<Longrightarrow> reads lo la s r"
  "members False False s r \<Longrightarrow> members lo la s r"
  "elems False False s r \<Longrightarrow> elems lo la s r"
proof (induct rule: reads_members_elems.inducts)
  case (r_string t str r)
  then show ?case by (rule reads_members_elems.r_string)
next
  case (r_scalar c t v r)
  then show ?case by (rule reads_members_elems.r_scalar)
next
  case (r_empty_object t r)
  then show ?case by (rule reads_members_elems.r_empty_object)
next
  case (r_object t r)
  from r_object(2) show ?case by (rule reads_members_elems.r_object)
next
  case (r_empty_array t r)
  then show ?case by (rule reads_members_elems.r_empty_array)
next
  case (r_array t r)
  from r_array(2) show ?case by (rule reads_members_elems.r_array)
next
  case (m_last t key t1 t2 t3 r)
  from m_last(1,2,4,5) show ?case by (rule reads_members_elems.m_last)
next
  case (m_more t key t1 t2 t3 t4 r)
  from m_more(1,2,4,5,7) show ?case by (rule reads_members_elems.m_more)
next
  case (m_trailing t key t1 t2 t3 t4 r)
  then show ?case by simp
next
  case (e_last s t1 r)
  from e_last(2,3) show ?case by (rule reads_members_elems.e_last)
next
  case (e_more s t1 t2 r)
  from e_more(2,3,5) show ?case by (rule reads_members_elems.e_more)
next
  case (e_trailing s t1 t2 r)
  then show ?case by simp
qed

lemma json_loads_tolerant:
  assumes "json_loads s = Inr v"
  shows "tolerant_json s"
proof -
  from assms obtain r where p: "parse_value (skip_ws s) = Inr (v, r)" and e: "skip_ws r = []"
    by (auto simp: json_loads_def split: sum.splits if_splits)
  from parse_strict_reads(1)[OF p] have "reads True True (skip_ws s) r"
    by (rule reads_tolerant)
  with e show ?thesis by (auto simp: tolerant_json_def)
qed

section \<open>What the searches find\<close>



















section \<open>The claims\<close>

subsection \<open>The fallback evaluation\<close>

text \<open>
  Claim C1.  The client has been obtained and the candidate summary built, so that the
  generative service is called.  When that call raises, or gives no text, or the JSON
  cannot be recovered from its text, \<^verbatim>\<open>evaluate_candidate\<close> raises nothing and returns the
  candidate merged with the fallback: \<^verbatim>\<open>score\<close> is the candidate's
  \<^verbatim>\<open>preliminary_score\<close> if it has one and 50 otherwise, \<^verbatim>\<open>match_percentage\<close> is 50,
  \<^verbatim>\<open>summary\<close> is "Unable to generate detailed assessment", \<^verbatim>\<open>strengths\<close> is
  ["Evaluation pending"], \<^verbatim>\<open>gaps\<close> is empty, \<^verbatim>\<open>recommendation\<close> is "moderate_fit", and
  every other field is the candidate's.  An exception that does leave
  \<^verbatim>\<open>evaluate_candidate\<close> is never one of the call or of the recovery: it is the one of
  \<^verbatim>\<open>get_client\<close> or of joining the candidate's lists, both raised before the \<^verbatim>\<open>try\<close>.
\<close>

theorem evaluate_candidate_fallback:
  "(get_client api_key = Inr cl \<and> candidate_summary candidate = Inr summary
      \<and> (response_text response = Inl e
          \<or> (\<exists>ai_text. response_text response = Inr ai_text \<and> evaluation_json ai_text = Inl e))
      \<and> is_exception e \<longrightarrow>
      (\<exists>r. evaluate_candidate api_key response candidate job_description = Inr r
        \<and> r = fallback candidate
        \<and> map_of r ''score''
            = Some (case map_of candidate ''preliminary_score'' of Some v \<Rightarrow> v | None \<Rightarrow> JInt 50)
        \<and> map_of r ''match_percentage'' = Some (JInt 50)
        \<and> map_of r ''summary'' = Some (JStr ''Unable to generate detailed assessment'')
        \<and> map_of r ''strengths'' = Some (JArr [JStr ''Evaluation pending''])
        \<and> map_of r ''gaps'' = Some (JArr [])
        \<and> map_of r ''recommendation'' = Some (JStr ''moderate_fit'')
        \<and> (\<forall>k. k \<notin> set scoring_fields \<longrightarrow> map_of r k = map_of candidate k)))
   \<and> (evaluate_candidate api_key response candidate job_description = Inl e' \<and> is_exception e' \<longrightarrow>
        get_client api_key = Inl e' \<or> candidate_summary candidate = Inl e')"
proof (intro conjI impI)
  assume a: "get_client api_key = Inr cl \<and> candidate_summary candidate = Inr summary
      \<and> (response_text response = Inl e
          \<or> (\<exists>ai_text. response_text response = Inr ai_text \<and> evaluation_json ai_text = Inl e))
      \<and> is_exception e"
  then have "enhance candidate response = Inl e"
    by (intro enhance_fails) simp
  with a have "evaluate_candidate api_key response candidate job_description = Inr (fallback candidate)"
    by (simp add: evaluate_candidate_def)
  then show "\<exists>r. evaluate_candidate api_key response candidate job_description = Inr r
        \<and> r = fallback candidate
        \<and> map_of r ''score''
            = Some (case map_of candidate ''preliminary_score'' of Some v \<Rightarrow> v | None \<Rightarrow> JInt 50)
        \<and> map_of r ''match_percentage'' = Some (JInt 50)
        \<and> map_of r ''summary'' = Some (JStr ''Unable to generate detailed assessment'')
        \<and> map_of r ''strengths'' = Some (JArr [JStr ''Evaluation pending''])
        \<and> map_of r ''gaps'' = Some (JArr [])
        \<and> map_of r ''recommendation'' = Some (JStr ''moderate_fit'')
        \<and> (\<forall>k. k \<notin> set scoring_fields \<longrightarrow> map_of r k = map_of candidate k)"
    using fallback_fields[of candidate] fallback_other[of _ candidate]
    by (simp add: dict_get_def split: option.splits)
next
  assume "evaluate_candidate api_key response candidate job_description = Inl e' \<and> is_exception e'"
  then have "evaluate_candidate api_key response candidate job_description = Inl e'" "is_exception e'"
    by simp_all
  then show "get_client api_key = Inl e' \<or> candidate_summary candidate = Inl e'"
    by (rule evaluate_candidate_raises)
qed

theorem evaluate_candidate_fallback_witness:
  \<open>get_client (Some ''key'') = Inr (Client ''key'')
   \<and> candidate_summary [(''name'', JStr ''Ann''), (''skills'', JArr [JStr ''sql'', JStr ''go'']),
         (''preliminary_score'', JInt 20)]
       = Inr (''sql, go'', [])
   \<and> response_text (Inr (Some ''I cannot assess this candidate.'')) = Inr ''I cannot assess this candidate.''
   \<and> evaluation_json ''I cannot assess this candidate.'' = Inl (ValueError ''JSON not found'')
   \<and> is_exception (ValueError ''JSON not found'')
   \<and> evaluate_candidate (Some ''key'') (Inr (Some ''I cannot assess this candidate.''))
        [(''name'', JStr ''Ann''), (''skills'', JArr [JStr ''sql'', JStr ''go'']),
         (''preliminary_score'', JInt 20)] ''Go developer''
      = Inr [(''name'', JStr ''Ann''), (''skills'', JArr [JStr ''sql'', JStr ''go'']),
             (''preliminary_score'', JInt 20),
             (''score'', JInt 20), (''match_percentage'', JInt 50),
             (''summary'', JStr ''Unable to generate detailed assessment''),
             (''strengths'', JArr [JStr ''Evaluation pending'']), (''gaps'', JArr []),
             (''recommendation'', JStr ''moderate_fit'')]\<close>
proof -
  let ?c = "[(''name'', JStr ''Ann''), (''skills'', JArr [JStr ''sql'', JStr ''go'']),
             (''preliminary_score'', JInt 20)]"
  let ?t = "''I cannot assess this candidate.''"
  have h1: "get_client (Some ''key'') = Inr (Client ''key'')" by (simp add: get_client_def)
  have h2: "candidate_summary ?c = Inr (''sql, go'', [])"
    by (simp add: candidate_summary_def dict_get_def)
  have h3: "response_text (Inr (Some ?t)) = Inr ?t"
    by (simp add: response_text_def)
  have h4: "evaluation_json ?t = Inl (ValueError ''JSON not found'')" by code_simp
  have h5: "is_exception (ValueError ''JSON not found'')" by simp
  have f: "fallback ?c = [(''name'', JStr ''Ann''), (''skills'', JArr [JStr ''sql'', JStr ''go'']),
             (''preliminary_score'', JInt 20),
             (''score'', JInt 20), (''match_percentage'', JInt 50),
             (''summary'', JStr ''Unable to generate detailed assessment''),
             (''strengths'', JArr [JStr ''Evaluation pending'']), (''gaps'', JArr []),
             (''recommendation'', JStr ''moderate_fit'')]"
    by (simp add: fallback_def dict_merge_def dict_get_def)
  have d: "response_text (Inr (Some ?t)) = Inl (ValueError ''JSON not found'')
      \<or> (\<exists>ai_text. response_text (Inr (Some ?t)) = Inr ai_text
            \<and> evaluation_json ai_text = Inl (ValueError ''JSON not found''))"
    using h3 h4 by blast
  from evaluate_candidate_fallback[THEN conjunct1, THEN mp, OF conjI[OF h1 conjI[OF h2 conjI[OF d h5]]],
      of "''Go developer''"]
  have "evaluate_candidate (Some ''key'') (Inr (Some ?t)) ?c ''Go developer'' = Inr (fallback ?c)"
    by (elim exE conjE) simp
  then have c: "evaluate_candidate (Some ''key'') (Inr (Some ?t)) ?c ''Go developer'' = Inr
            [(''name'', JStr ''Ann''), (''skills'', JArr [JStr ''sql'', JStr ''go'']),
             (''preliminary_score'', JInt 20),
             (''score'', JInt 20), (''match_percentage'', JInt 50),
             (''summary'', JStr ''Unable to generate detailed assessment''),
             (''strengths'', JArr [JStr ''Evaluation pending'']), (''gaps'', JArr []),
             (''recommendation'', JStr ''moderate_fit'')]"
    by (simp only: f)
  show ?thesis
    by (intro conjI h1 h2 h3 h4 h5 c)
qed

subsection \<open>The ranked list\<close>





subsection \<open>Retrieval\<close>




subsection \<open>The preliminary score\<close>

text \<open>
  Claim C7.  A record that \<^verbatim>\<open>parse_resume\<close> returns without the key \<^verbatim>\<open>error\<close> is the
  extracted record with \<^verbatim>\<open>preliminary_score\<close> set to the least of 100 and ten times the
  length of its \<^verbatim>\<open>skills\<close>: an integer from 0 to 100, 0 when there is no \<^verbatim>\<open>skills\<close>
  field or it is empty, and ten for each skill of a list.  The other fields are the
  extracted ones.
\<close>

theorem parse_resume_preliminary_score:
  assumes "parse_resume api_key retrieved response = Inr (JObj r)"
    and "\<not> has_key r ''error''"
  shows "\<exists>ai_text d n.
      response = Inr (Some ai_text) \<and> extract_json ai_text = Inr (JObj d)
    \<and> py_len (dict_get d ''skills'' (JArr [])) = Inr n
    \<and> r = AList.update ''preliminary_score'' (JInt (min (10 * int n) 100)) d
    \<and> map_of r ''preliminary_score'' = Some (JInt (min (10 * int n) 100))
    \<and> 0 \<le> min (10 * int n) 100 \<and> min (10 * int n) 100 \<le> 100
    \<and> (map_of d ''skills'' = None \<longrightarrow> n = 0)
    \<and> (\<forall>xs. map_of d ''skills'' = Some (JArr xs) \<longrightarrow> n = length xs)
    \<and> (\<forall>k. k \<noteq> ''preliminary_score'' \<longrightarrow> map_of r k = map_of d k)"
proof -
  from parse_resume_cases[OF assms(1)] show ?thesis
  proof (elim disjE exE conjE)
    fix m
    assume "JObj r = error_record m"
    then have "has_key r ''error''" by (rule not_has_key_error_record)
    with assms(2) show ?thesis by simp
  next
    fix ai_text d
    assume "has_key d ''error''" "JObj r = JObj d"
    with assms(2) show ?thesis by simp
  next
    fix ai_text d n
    assume r: "response = Inr (Some ai_text)" and e: "extract_json ai_text = Inr (JObj d)"
      and l: "py_len (dict_get d ''skills'' (JArr [])) = Inr n"
      and res: "JObj r = JObj (AList.update ''preliminary_score'' (JInt (preliminary_score n)) d)"
    from res have r1: "r = AList.update ''preliminary_score'' (JInt (preliminary_score n)) d"
      by simp
    then have r2: "r = AList.update ''preliminary_score'' (JInt (min (10 * int n) 100)) d"
      by (simp only: preliminary_score_min)
    have rng: "0 \<le> min (10 * int n) 100" "min (10 * int n) 100 \<le> 100"
      by simp_all
    note a = attached_score[OF l r1]
    have "response = Inr (Some ai_text) \<and> extract_json ai_text = Inr (JObj d)
      \<and> py_len (dict_get d ''skills'' (JArr [])) = Inr n
      \<and> r = AList.update ''preliminary_score'' (JInt (min (10 * int n) 100)) d
      \<and> map_of r ''preliminary_score'' = Some (JInt (min (10 * int n) 100))
      \<and> 0 \<le> min (10 * int n) 100 \<and> min (10 * int n) 100 \<le> 100
      \<and> (map_of d ''skills'' = None \<longrightarrow> n = 0)
      \<and> (\<forall>xs. map_of d ''skills'' = Some (JArr xs) \<longrightarrow> n = length xs)
      \<and> (\<forall>k. k \<noteq> ''preliminary_score'' \<longrightarrow> map_of r k = map_of d k)"
      by (intro conjI r e l r2 a rng)
    then show ?thesis by (intro exI)
  qed
qed

theorem parse_resume_preliminary_score_witness:
  \<open>parse_resume (Some ''key'') (Inr ''resume text'')
      (Inr (Some ''{"name": "Ann", "skills": ["sql", "go", "c"]}''))
    = Inr (JObj [(''name'', JStr ''Ann''),
                 (''skills'', JArr [JStr ''sql'', JStr ''go'', JStr ''c'']),
                 (''preliminary_score'', JInt 30)])
   \<and> \<not> has_key [(''name'', JStr ''Ann''),
                 (''skills'', JArr [JStr ''sql'', JStr ''go'', JStr ''c'']),
                 (''preliminary_score'', JInt 30)] ''error''
   \<and> map_of [(''name'', JStr ''Ann''),
                 (''skills'', JArr [JStr ''sql'', JStr ''go'', JStr ''c'']),
                 (''preliminary_score'', JInt 30)] ''preliminary_score'' = Some (JInt 30)\<close>
proof -
  let ?r = "[(''name'', JStr ''Ann''),
             (''skills'', JArr [JStr ''sql'', JStr ''go'', JStr ''c'']),
             (''preliminary_score'', JInt 30)]"
  have h1: \<open>parse_resume (Some ''key'') (Inr ''resume text'')
      (Inr (Some ''{"name": "Ann", "skills": ["sql", "go", "c"]}'')) = Inr (JObj ?r)\<close>
    by code_simp
  have h2: "\<not> has_key ?r ''error''"
    by (simp add: has_key_def)
  from parse_resume_preliminary_score[OF h1 h2]
  obtain n where "map_of ?r ''preliminary_score'' = Some (JInt (min (10 * int n) 100))"
    by (elim exE conjE)
  then have "map_of ?r ''preliminary_score'' = Some (JInt 30)"
    by simp
  then show ?thesis
    by (intro conjI h1 h2)
qed

subsection \<open>The key \<^verbatim>\<open>error\<close>\<close>

text \<open>
  Claim C9, as the code has it.  \<^verbatim>\<open>parse_resume\<close> always returns a dictionary, and the
  caller ranks it exactly when it has no key \<^verbatim>\<open>error\<close>.  A dictionary with the key
  \<^verbatim>\<open>error\<close> is either the one-key record of a failure or the extracted JSON itself,
  returned as it was extracted; a dictionary without it has a \<^verbatim>\<open>preliminary_score\<close>.  So a
  resume whose extracted JSON has a field \<^verbatim>\<open>error\<close> is returned unchanged and is not
  ranked.  No Python exception leaves \<^verbatim>\<open>parse_resume\<close>.
\<close>

theorem parse_resume_error_key:
  "(parse_resume api_key retrieved response = Inr result \<longrightarrow>
      (\<exists>r. result = JObj r
         \<and> (is_ranked result \<longleftrightarrow> \<not> has_key r ''error'')
         \<and> (has_key r ''error'' \<longrightarrow>
               (\<exists>m. r = [(''error'', JStr m)])
             \<or> (\<exists>ai_text. response = Inr (Some ai_text) \<and> extract_json ai_text = Inr (JObj r)))
         \<and> (\<not> has_key r ''error'' \<longrightarrow> has_key r ''preliminary_score'')))
   \<and> (parse_resume api_key retrieved response = Inl e \<longrightarrow> \<not> is_exception e)
   \<and> (retrieved = Inr combined_text \<and> get_client api_key = Inr cl
        \<and> response = Inr (Some ai_text) \<and> extract_json ai_text = Inr (JObj d)
        \<and> has_key d ''error'' \<longrightarrow>
          parse_resume api_key retrieved response = Inr (JObj d) \<and> \<not> is_ranked (JObj d))"
proof (intro conjI impI)
  assume h: "parse_resume api_key retrieved response = Inr result"
  from parse_resume_cases[OF h]
  show "\<exists>r. result = JObj r
         \<and> (is_ranked result \<longleftrightarrow> \<not> has_key r ''error'')
         \<and> (has_key r ''error'' \<longrightarrow>
               (\<exists>m. r = [(''error'', JStr m)])
             \<or> (\<exists>ai_text. response = Inr (Some ai_text) \<and> extract_json ai_text = Inr (JObj r)))
         \<and> (\<not> has_key r ''error'' \<longrightarrow> has_key r ''preliminary_score'')"
  proof (elim disjE exE conjE)
    fix m
    assume "result = error_record m"
    then have "result = JObj [(''error'', JStr m)]" by (simp add: error_record_def)
    then show ?thesis by (simp add: is_ranked_JObj has_key_def)
  next
    fix ai_text d
    assume "response = Inr (Some ai_text)" "extract_json ai_text = Inr (JObj d)"
      "has_key d ''error''" "result = JObj d"
    then show ?thesis by (simp add: is_ranked_JObj)
  next
    fix ai_text d n
    assume k: "\<not> has_key d ''error''"
      and r: "result = JObj (AList.update ''preliminary_score'' (JInt (preliminary_score n)) d)"
    let ?r = "AList.update ''preliminary_score'' (JInt (preliminary_score n)) d"
    have "\<not> has_key ?r ''error''" "has_key ?r ''preliminary_score''"
      using k by (simp_all add: has_key_update)
    with r show ?thesis by (simp add: is_ranked_JObj)
  qed
next
  assume "parse_resume api_key retrieved response = Inl e"
  then show "\<not> is_exception e"
    by (auto simp: parse_resume_def try_except_def split: sum.splits if_splits)
next
  assume a: "retrieved = Inr combined_text \<and> get_client api_key = Inr cl
        \<and> response = Inr (Some ai_text) \<and> extract_json ai_text = Inr (JObj d)
        \<and> has_key d ''error''"
  then have "retrieved = Inr combined_text" "get_client api_key = Inr cl"
    "response = Inr (Some ai_text)" "extract_json ai_text = Inr (JObj d)" "has_key d ''error''"
    by simp_all
  then show "parse_resume api_key retrieved response = Inr (JObj d)"
    by (rule parse_resume_own_error)
next
  assume a: "retrieved = Inr combined_text \<and> get_client api_key = Inr cl
        \<and> response = Inr (Some ai_text) \<and> extract_json ai_text = Inr (JObj d)
        \<and> has_key d ''error''"
  then show "\<not> is_ranked (JObj d)" by (simp add: is_ranked_JObj)
qed

theorem parse_resume_error_key_witness:
  \<open>get_client (Some ''key'') = Inr (Client ''key'')
   \<and> extract_json ''{"name": "Ann", "error": "no skills listed"}''
       = Inr (JObj [(''name'', JStr ''Ann''), (''error'', JStr ''no skills listed'')])
   \<and> has_key [(''name'', JStr ''Ann''), (''error'', JStr ''no skills listed'')] ''error''
   \<and> parse_resume (Some ''key'') (Inr ''resume text'')
         (Inr (Some ''{"name": "Ann", "error": "no skills listed"}''))
       = Inr (JObj [(''name'', JStr ''Ann''), (''error'', JStr ''no skills listed'')])
   \<and> \<not> is_ranked (JObj [(''name'', JStr ''Ann''), (''error'', JStr ''no skills listed'')])\<close>
proof -
  have g: "get_client (Some ''key'') = Inr (Client ''key'')"
    by (simp add: get_client_def)
  have e: \<open>extract_json ''{"name": "Ann", "error": "no skills listed"}''
       = Inr (JObj [(''name'', JStr ''Ann''), (''error'', JStr ''no skills listed'')])\<close>
    by code_simp
  have k: "has_key [(''name'', JStr ''Ann''), (''error'', JStr ''no skills listed'')] ''error''"
    by (simp add: has_key_def)
  note c = parse_resume_error_key[THEN conjunct2, THEN conjunct2, THEN mp,
      OF conjI[OF refl conjI[OF g conjI[OF refl conjI[OF e k]]]]]
  show ?thesis
    by (intro conjI g e k c[THEN conjunct1] c[THEN conjunct2])
qed

text \<open>
  The extracted JSON may itself carry a \<^verbatim>\<open>preliminary_score\<close> beside its \<^verbatim>\<open>error\<close>: the
  returned dictionary then has both keys.
\<close>

theorem parse_resume_error_key_counterexample:
  \<open>parse_resume (Some ''key'') (Inr ''resume text'')
      (Inr (Some ''{"error": "unreadable", "preliminary_score": 7}''))
    = Inr (JObj [(''error'', JStr ''unreadable''), (''preliminary_score'', JInt 7)])
   \<and> has_key [(''error'', JStr ''unreadable''), (''preliminary_score'', JInt 7)] ''error''
   \<and> has_key [(''error'', JStr ''unreadable''), (''preliminary_score'', JInt 7)] ''preliminary_score''\<close>
  by code_simp

subsection \<open>What an evaluation leaves of the candidate\<close>

text \<open>
  Claim C8, as the code has it.  A record that \<^verbatim>\<open>evaluate_candidate\<close> returns has every
  key of the candidate.  It is either the fallback record, in which every field other than
  the six scoring fields has the candidate's value, or the candidate merged with the
  evaluation decoded from the response, in which a key has the evaluation's value if the
  evaluation has that key, whatever its name, and the candidate's value otherwise.  Every
  record that \<^verbatim>\<open>rank_candidates\<close> returns is such a record of one of the candidates.
\<close>

theorem evaluate_candidate_keeps_fields:
  "(evaluate_candidate api_key response candidate job_description = Inr r \<longrightarrow>
      (\<forall>k. has_key candidate k \<longrightarrow> has_key r k)
    \<and> (r = fallback candidate
          \<and> (\<forall>k. k \<notin> set scoring_fields \<longrightarrow> map_of r k = map_of candidate k)
        \<or> (\<exists>ai_text evaluation.
              response = Inr (Some ai_text)
            \<and> evaluation_json ai_text = Inr (JObj evaluation)
            \<and> r = dict_merge candidate evaluation
            \<and> (\<forall>k. map_of r k
                  = (case map_of evaluation k of Some v \<Rightarrow> Some v | None \<Rightarrow> map_of candidate k)))))
   \<and> (rank_candidates api_key responses candidates job_description = Inr ranked \<longrightarrow>
        (\<forall>x\<in>set ranked. \<exists>i<length candidates.
            evaluate_candidate api_key (responses i) (candidates ! i) job_description = Inr x
          \<and> (\<forall>k. has_key (candidates ! i) k \<longrightarrow> has_key x k)))"
proof (intro conjI impI allI ballI)
  fix k
  assume "evaluate_candidate api_key response candidate job_description = Inr r"
    and "has_key candidate k"
  then show "has_key r k" by (rule evaluate_candidate_has_key)
next
  assume h: "evaluate_candidate api_key response candidate job_description = Inr r"
  from evaluate_candidate_Inr[OF h]
  show "r = fallback candidate
          \<and> (\<forall>k. k \<notin> set scoring_fields \<longrightarrow> map_of r k = map_of candidate k)
        \<or> (\<exists>ai_text evaluation.
              response = Inr (Some ai_text)
            \<and> evaluation_json ai_text = Inr (JObj evaluation)
            \<and> r = dict_merge candidate evaluation
            \<and> (\<forall>k. map_of r k
                  = (case map_of evaluation k of Some v \<Rightarrow> Some v | None \<Rightarrow> map_of candidate k)))"
  proof
    assume "r = fallback candidate"
    then show ?thesis by (simp add: fallback_other)
  next
    assume "enhance candidate response = Inr r"
    from enhance_Inr[OF this] obtain ai_text evaluation where
      "response = Inr (Some ai_text)" "evaluation_json ai_text = Inr (JObj evaluation)"
      "distinct (map fst evaluation)" "r = dict_merge candidate evaluation"
      by blast
    then have "response = Inr (Some ai_text)
            \<and> evaluation_json ai_text = Inr (JObj evaluation)
            \<and> r = dict_merge candidate evaluation
            \<and> (\<forall>k. map_of r k
                  = (case map_of evaluation k of Some v \<Rightarrow> Some v | None \<Rightarrow> map_of candidate k))"
      by (simp add: map_of_dict_merge_distinct)
    then show ?thesis by blast
  qed
next
  fix x
  assume h: "rank_candidates api_key responses candidates job_description = Inr ranked"
    and x: "x \<in> set ranked"
  from rank_candidates_members[OF h x] obtain i where
    i: "i < length candidates"
    and e: "evaluate_candidate api_key (responses i) (candidates ! i) job_description = Inr x"
    by blast
  have "\<forall>k. has_key (candidates ! i) k \<longrightarrow> has_key x k"
    using evaluate_candidate_has_key[OF e] by blast
  with i e show "\<exists>i<length candidates.
            evaluate_candidate api_key (responses i) (candidates ! i) job_description = Inr x
          \<and> (\<forall>k. has_key (candidates ! i) k \<longrightarrow> has_key x k)"
    by blast
qed

theorem evaluate_candidate_keeps_fields_witness:
  \<open>evaluate_candidate (Some ''key'') (Inr (Some ''{"score": 90, "summary": "fits"}''))
      [(''name'', JStr ''Ann''), (''skills'', JArr [JStr ''sql''])] ''job''
    = Inr [(''name'', JStr ''Ann''), (''skills'', JArr [JStr ''sql'']),
           (''score'', JInt 90), (''summary'', JStr ''fits'')]
   \<and> has_key [(''name'', JStr ''Ann''), (''skills'', JArr [JStr ''sql''])] ''skills''
   \<and> has_key [(''name'', JStr ''Ann''), (''skills'', JArr [JStr ''sql'']),
           (''score'', JInt 90), (''summary'', JStr ''fits'')] ''skills''\<close>
proof -
  have h: \<open>evaluate_candidate (Some ''key'') (Inr (Some ''{"score": 90, "summary": "fits"}''))
      [(''name'', JStr ''Ann''), (''skills'', JArr [JStr ''sql''])] ''job''
    = Inr [(''name'', JStr ''Ann''), (''skills'', JArr [JStr ''sql'']),
           (''score'', JInt 90), (''summary'', JStr ''fits'')]\<close>
    by code_simp
  have k: "has_key [(''name'', JStr ''Ann''), (''skills'', JArr [JStr ''sql''])] ''skills''"
    by (simp add: has_key_def)
  note c = evaluate_candidate_keeps_fields[THEN conjunct1, THEN mp, OF h, THEN conjunct1,
      THEN spec, THEN mp, OF k]
  show ?thesis
    by (intro conjI h k c)
qed

text \<open>
  An evaluation that has a key \<^verbatim>\<open>name\<close> replaces the candidate's name.
\<close>

theorem evaluate_candidate_overwrites_counterexample:
  \<open>evaluate_candidate (Some ''key'') (Inr (Some ''{"name": "Bob", "score": 90}''))
      [(''name'', JStr ''Ann''), (''skills'', JArr [JStr ''sql''])] ''job''
    = Inr [(''name'', JStr ''Bob''), (''skills'', JArr [JStr ''sql'']), (''score'', JInt 90)]
   \<and> map_of [(''name'', JStr ''Ann''), (''skills'', JArr [JStr ''sql''])] ''name'' = Some (JStr ''Ann'')
   \<and> map_of [(''name'', JStr ''Bob''), (''skills'', JArr [JStr ''sql'']), (''score'', JInt 90)] ''name''
      = Some (JStr ''Bob'')\<close>
  by code_simp

subsection \<open>The two recoveries of JSON\<close>

text \<open>
  Claim C5.  On a response whose object ends in a trailing comma the two functions part:
  \<^verbatim>\<open>extract_json\<close> removes the comma and decodes the object, the lines of
  \<^verbatim>\<open>evaluate_candidate\<close> decode the text as it is and fail, and the candidate gets the
  fallback scores.
\<close>

theorem evaluation_json_keeps_trailing_comma:
  \<open>extract_json ''{"score": 90, "recommendation": "strong_fit",}''
      = Inr (JObj [(''score'', JInt 90), (''recommendation'', JStr ''strong_fit'')])
   \<and> evaluation_json ''{"score": 90, "recommendation": "strong_fit",}''
      = Inl (JSONDecodeError ''Expecting property name enclosed in double quotes'')
   \<and> evaluate_candidate (Some ''key'')
        (Inr (Some ''{"score": 90, "recommendation": "strong_fit",}'')) [(''name'', JStr ''Ann'')] ''job''
      = Inr (fallback [(''name'', JStr ''Ann'')])\<close>
  by code_simp

text \<open>
  Claim C10.  There is a response whose first brace span is well-formed JSON and which
  \<^verbatim>\<open>extract_json\<close> decodes to other strings than \<^verbatim>\<open>json.loads\<close> reads in that span: the
  commas before a closing bracket are removed inside the string literals too.
\<close>

theorem extract_json_rewrites_strings:
  \<open>\<exists>text span.
      search_fenced text = None
    \<and> search_braces text = Some span
    \<and> json_loads span = Inr (JObj [(''note'', JStr ''a,}''), (''tags'', JStr ''x, ]'')])
    \<and> extract_json text = Inr (JObj [(''note'', JStr ''a}''), (''tags'', JStr ''x]'')])
    \<and> JStr ''a}'' \<noteq> JStr ''a,}'' \<and> JStr ''x]'' \<noteq> JStr ''x, ]''\<close>
proof -
  have \<open>search_fenced ''Result: {"note": "a,}", "tags": "x, ]"} done'' = None
    \<and> search_braces ''Result: {"note": "a,}", "tags": "x, ]"} done''
        = Some ''{"note": "a,}", "tags": "x, ]"}''
    \<and> json_loads ''{"note": "a,}", "tags": "x, ]"}''
        = Inr (JObj [(''note'', JStr ''a,}''), (''tags'', JStr ''x, ]'')])
    \<and> extract_json ''Result: {"note": "a,}", "tags": "x, ]"} done''
        = Inr (JObj [(''note'', JStr ''a}''), (''tags'', JStr ''x]'')])
    \<and> JStr ''a}'' \<noteq> JStr ''a,}'' \<and> JStr ''x]'' \<noteq> JStr ''x, ]''\<close>
    by code_simp
  then show ?thesis by blast
qed

subsection \<open>The recovery protocol of \<^verbatim>\<open>extract_json\<close>\<close>



end
